theory Spec2Isabelle
  imports Main "HOL-Library.Char_ord" "HOL-Library.List_Lexorder" "HOL-Library.Word"
begin

section \<open>Data model\<close>

text \<open>
  The partition layer of the dataset module (partition.h, partition.cc) and the file
  sources of file_base.h. Schemas, scalars, expressions and statuses belong to other
  modules of the library; they are represented here by free datatypes that carry what
  the partition code builds and inspects.
\<close>

datatype DataType = int8 | int16 | int32 | int64 | utf8

record Field =
  field_name :: string
  field_type :: DataType

type_synonym Schema = "Field list"

datatype Scalar = BooleanScalar bool | NumericScalar DataType int | StringScalar string

datatype Expression =
    ScalarExpression Scalar
  | FieldExpression string
  | EqualExpression Expression Expression
  | AndExpression Expression Expression

datatype Status = TypeError string | Invalid string | NotImplemented string

text \<open>The struct \<open>PartitionKeysScheme::Key\<close>: a field name and the representation of a value.\<close>

record Key =
  key_name :: string
  key_value :: string

text \<open>
  \<open>Scalar::Parse(type, repr)\<close> is not part of the partition code: every function that
  calls it takes it as the parameter \<open>parse\<close>.
\<close>

type_synonym ScalarParser = "DataType \<Rightarrow> string \<Rightarrow> Status + Scalar"

text \<open>
  The class hierarchy below \<open>PartitionScheme\<close>, one constructor per concrete class. The
  index \<open>i\<close> of a segment within a path (an \<open>int\<close> in the source, counted up from 0 by
  the path parser and cast to \<open>size_t\<close> by the dictionary scheme) is a natural number.
\<close>

datatype PartitionScheme =
    DefaultPartitionScheme
  | SegmentDictionaryPartitionScheme Schema "(string \<rightharpoonup> Expression) list"
  | SchemaPartitionScheme Schema
  | HivePartitionScheme Schema
  | FunctionPartitionScheme Schema "string \<Rightarrow> nat \<Rightarrow> Status + Expression" string

section \<open>Expressions and schemas: the operations the partition code calls\<close>

definition scalar_bool :: "bool \<Rightarrow> Expression" where
  "scalar_bool b = ScalarExpression (BooleanScalar b)"

definition scalar :: "Scalar \<Rightarrow> Expression" where
  "scalar v = ScalarExpression v"

definition field_ref :: "string \<Rightarrow> Expression" where
  "field_ref n = FieldExpression n"

definition equal :: "Expression \<Rightarrow> Expression \<Rightarrow> Expression" where
  "equal l r = EqualExpression l r"

text \<open>
  Modelled from the spec: \<open>Expression::Equals(bool)\<close> of the filter module, which is not
  among the sources; the test "used to detect the trivial-true predicate" when called
  with \<open>true\<close>.
\<close>

definition Equals_true :: "Expression \<Rightarrow> bool" where
  "Equals_true e = (e = scalar_bool True)"

text \<open>
  Modelled from the spec: \<open>and_(ExpressionVector)\<close> of the filter module, which is not
  among the sources; the conjunction of the expressions in their order, where the
  conjunction of zero expressions is the trivial true predicate.
\<close>

fun and_vector :: "Expression list \<Rightarrow> Expression" where
  "and_vector [] = scalar_bool True"
| "and_vector (e # es) = foldl AndExpression e es"

text \<open>
  Modelled from the spec: \<open>Schema::GetFieldByName\<close> and \<open>Schema::GetFieldIndex\<close> of the
  type module, which are not among the sources; field lookup by name, the null pointer
  and the index \<open>-1\<close> standing for "no field of that name".
\<close>

definition GetFieldByName :: "Schema \<Rightarrow> string \<Rightarrow> Field option" where
  "GetFieldByName schema n = find (\<lambda>f. field_name f = n) schema"

fun GetFieldIndex_from :: "int \<Rightarrow> Schema \<Rightarrow> string \<Rightarrow> int" where
  "GetFieldIndex_from i [] n = - 1"
| "GetFieldIndex_from i (f # fs) n =
     (if field_name f = n then i else GetFieldIndex_from (i + 1) fs n)"

definition GetFieldIndex :: "Schema \<Rightarrow> string \<Rightarrow> int" where
  "GetFieldIndex schema n = GetFieldIndex_from 0 schema n"

text \<open>
  Modelled from the spec: \<open>SchemaFromColumnNames(input, column_names)\<close> of
  dataset_internal.h, which is not among the sources; the schema "restricted to
  (reordered by) the field-name list": one field per listed name that the input has,
  in the order of the list.
\<close>

definition SchemaFromColumnNames :: "Schema \<Rightarrow> string list \<Rightarrow> Schema" where
  "SchemaFromColumnNames input column_names =
     List.map_filter (GetFieldByName input) column_names"

section \<open>Strings\<close>

text \<open>
  The members of \<open>std::string\<close> and \<open>string_view\<close> that the code uses; \<open>None\<close> is \<open>npos\<close>.
\<close>

fun find_first_of :: "string \<Rightarrow> char \<Rightarrow> nat option" where
  "find_first_of [] ch = None"
| "find_first_of (c # s) ch =
     (if c = ch then Some 0 else map_option Suc (find_first_of s ch))"

fun find_first_not_of :: "string \<Rightarrow> string \<Rightarrow> nat option" where
  "find_first_not_of [] chars = None"
| "find_first_not_of (c # s) chars =
     (if c \<notin> set chars then Some 0 else map_option Suc (find_first_not_of s chars))"

definition substr :: "string \<Rightarrow> nat \<Rightarrow> nat \<Rightarrow> string" where
  "substr s pos n = take n (drop pos s)"

definition substr_from :: "string \<Rightarrow> nat \<Rightarrow> string" where
  "substr_from s pos = drop pos s"

section \<open>Key extraction\<close>

text \<open>\<open>HivePartitionScheme::ParseKey(segment)\<close>, the static member.\<close>

definition HivePartitionScheme_ParseKey :: "string \<Rightarrow> Key option" where
  "HivePartitionScheme_ParseKey segment =
     (case find_first_of segment (CHR ''='') of
        None \<Rightarrow> None
      | Some name_end \<Rightarrow>
          Some \<lparr>key_name = substr segment 0 name_end,
                key_value = substr_from segment (name_end + 1)\<rparr>)"

text \<open>\<open>HivePartitionScheme::ParseKey(segment, i)\<close>, the override, which drops \<open>i\<close>.\<close>

definition HivePartitionScheme_ParseKey_at :: "string \<Rightarrow> nat \<Rightarrow> Key option" where
  "HivePartitionScheme_ParseKey_at segment i = HivePartitionScheme_ParseKey segment"

text \<open>\<open>SchemaPartitionScheme::ParseKey(segment, i)\<close>.\<close>

definition SchemaPartitionScheme_ParseKey :: "Schema \<Rightarrow> string \<Rightarrow> nat \<Rightarrow> Key option" where
  "SchemaPartitionScheme_ParseKey schema segment i =
     (if i \<ge> length schema then None
      else Some \<lparr>key_name = field_name (schema ! i), key_value = segment\<rparr>)"

section \<open>Parsing segments and paths\<close>

text \<open>\<open>SegmentDictionaryPartitionScheme::Parse(segment, i)\<close>.\<close>

definition SegmentDictionaryPartitionScheme_Parse ::
  "(string \<rightharpoonup> Expression) list \<Rightarrow> string \<Rightarrow> nat \<Rightarrow> Status + Expression" where
  "SegmentDictionaryPartitionScheme_Parse dictionaries segment i =
     (if i < length dictionaries then
        (case (dictionaries ! i) segment of
           Some e \<Rightarrow> Inr e
         | None \<Rightarrow> Inr (scalar_bool True))
      else Inr (scalar_bool True))"

text \<open>\<open>PartitionKeysScheme::ConvertKey(key, schema)\<close>.\<close>

definition ConvertKey :: "ScalarParser \<Rightarrow> Key \<Rightarrow> Schema \<Rightarrow> Status + Expression" where
  "ConvertKey parse key schema =
     (case GetFieldByName schema (key_name key) of
        None \<Rightarrow> Inr (scalar_bool True)
      | Some field \<Rightarrow>
          (case parse (field_type field) (key_value key) of
             Inl st \<Rightarrow> Inl st
           | Inr converted \<Rightarrow> Inr (equal (field_ref (field_name field)) (scalar converted))))"

text \<open>
  \<open>PartitionKeysScheme::Parse(segment, i)\<close>; the virtual \<open>ParseKey\<close> of the concrete class
  is the argument \<open>ParseKey\<close>.
\<close>

definition PartitionKeysScheme_Parse ::
  "ScalarParser \<Rightarrow> (string \<Rightarrow> nat \<Rightarrow> Key option) \<Rightarrow> Schema \<Rightarrow> string \<Rightarrow> nat
     \<Rightarrow> Status + Expression" where
  "PartitionKeysScheme_Parse parse ParseKey schema segment i =
     (case ParseKey segment i of
        Some key \<Rightarrow> ConvertKey parse key schema
      | None \<Rightarrow> Inr (scalar_bool True))"

text \<open>The virtual \<open>Parse(segment, i)\<close>, dispatched on the class of the scheme.\<close>

fun Parse_segment :: "ScalarParser \<Rightarrow> PartitionScheme \<Rightarrow> string \<Rightarrow> nat \<Rightarrow> Status + Expression" where
  "Parse_segment parse DefaultPartitionScheme segment i = Inr (scalar_bool True)"
| "Parse_segment parse (SegmentDictionaryPartitionScheme schema dictionaries) segment i =
     SegmentDictionaryPartitionScheme_Parse dictionaries segment i"
| "Parse_segment parse (SchemaPartitionScheme schema) segment i =
     PartitionKeysScheme_Parse parse (SchemaPartitionScheme_ParseKey schema) schema segment i"
| "Parse_segment parse (HivePartitionScheme schema) segment i =
     PartitionKeysScheme_Parse parse HivePartitionScheme_ParseKey_at schema segment i"
| "Parse_segment parse (FunctionPartitionScheme schema impl name) segment i = impl segment i"

text \<open>
  The loop of \<open>PartitionScheme::Parse(path)\<close> over the segments still to visit, with the
  counter \<open>i\<close> and the vector \<open>expressions\<close> as they stand; \<open>ARROW_ASSIGN_OR_RAISE\<close>
  returns the status of a failed segment at once.
\<close>

fun Parse_loop ::
  "(string \<Rightarrow> nat \<Rightarrow> Status + Expression) \<Rightarrow> string list \<Rightarrow> nat \<Rightarrow> Expression list
     \<Rightarrow> Status + Expression" where
  "Parse_loop P [] i expressions = Inr (and_vector expressions)"
| "Parse_loop P (segment # rest) i expressions =
     (case P segment i of
        Inl st \<Rightarrow> Inl st
      | Inr expr \<Rightarrow>
          if Equals_true expr then Parse_loop P rest (i + 1) expressions
          else Parse_loop P rest (i + 1) (expressions @ [expr]))"

text \<open>
  \<open>PartitionScheme::Parse(path)\<close>. \<open>fs::internal::SplitAbstractPath\<close> belongs to the
  filesystem module and is the parameter \<open>split\<close>.
\<close>

definition Parse_path ::
  "(string \<Rightarrow> string list) \<Rightarrow> ScalarParser \<Rightarrow> PartitionScheme \<Rightarrow> string
     \<Rightarrow> Status + Expression" where
  "Parse_path split parse S path = Parse_loop (Parse_segment parse S) (split path) 0 []"

section \<open>Discovery\<close>

text \<open>
  \<open>std::map<std::string, std::vector<std::string>>\<close>: the entries in ascending order of
  their keys, which \<open>std::string\<close> compares byte by byte. \<open>push_back_at k v m\<close> is
  \<open>m[k].push_back(v)\<close>: \<open>operator[]\<close> inserts an empty vector under a new key at its
  place in the order.
\<close>

type_synonym name_to_values = "(string \<times> string list) list"

fun push_back_at :: "string \<Rightarrow> string \<Rightarrow> name_to_values \<Rightarrow> name_to_values" where
  "push_back_at k v [] = [(k, [v])]"
| "push_back_at k v ((k', vs) # m) =
     (if k = k' then (k', vs @ [v]) # m
      else if k < k' then (k, [v]) # (k', vs) # m
      else (k', vs) # push_back_at k v m)"

definition AllIntegral :: "string list \<Rightarrow> bool" where
  "AllIntegral reprs =
     list_all (\<lambda>repr. find_first_not_of repr ''0123456789'' = None) reprs"

definition InferSchema :: "name_to_values \<Rightarrow> Schema" where
  "InferSchema m =
     map (\<lambda>name_values.
            \<lparr>field_name = fst name_values,
             field_type = (if AllIntegral (snd name_values) then int32 else utf8)\<rparr>) m"

text \<open>
  \<open>SchemaPartitionSchemeDiscovery::Inspect\<close>: the inner loop over the segments of one
  path with its counter \<open>field_index\<close>, the outer loop over the paths.
\<close>

fun Schema_Inspect_segments ::
  "string list \<Rightarrow> nat \<Rightarrow> string list \<Rightarrow> name_to_values \<Rightarrow> name_to_values" where
  "Schema_Inspect_segments field_names field_index [] m = m"
| "Schema_Inspect_segments field_names field_index (segment # rest) m =
     (if field_index = length field_names then m
      else Schema_Inspect_segments field_names (field_index + 1) rest
             (push_back_at (field_names ! field_index) segment m))"

fun Schema_Inspect_paths ::
  "(string \<Rightarrow> string list) \<Rightarrow> string list \<Rightarrow> string list \<Rightarrow> name_to_values \<Rightarrow> name_to_values" where
  "Schema_Inspect_paths split field_names [] m = m"
| "Schema_Inspect_paths split field_names (path # rest) m =
     Schema_Inspect_paths split field_names rest
       (Schema_Inspect_segments field_names 0 (split path) m)"

definition SchemaPartitionSchemeDiscovery_Inspect ::
  "(string \<Rightarrow> string list) \<Rightarrow> string list \<Rightarrow> string list \<Rightarrow> Status + Schema" where
  "SchemaPartitionSchemeDiscovery_Inspect split field_names paths =
     Inr (SchemaFromColumnNames
            (InferSchema (Schema_Inspect_paths split field_names paths [])) field_names)"

text \<open>
  \<open>SchemaPartitionSchemeDiscovery::Finish\<close>: the loop that looks for a missing field,
  then the scheme over the restricted schema. The message of the error ends with the
  printed schema, which is left out here.
\<close>

fun Finish_missing :: "Schema \<Rightarrow> string list \<Rightarrow> Status option" where
  "Finish_missing schema [] = None"
| "Finish_missing schema (name # rest) =
     (if GetFieldIndex schema name = - 1
      then Some (TypeError (''no field named '' @ [CHR 0x27] @ name @ [CHR 0x27] @ '' in schema''))
      else Finish_missing schema rest)"

definition SchemaPartitionSchemeDiscovery_Finish ::
  "string list \<Rightarrow> Schema \<Rightarrow> Status + PartitionScheme" where
  "SchemaPartitionSchemeDiscovery_Finish field_names schema =
     (case Finish_missing schema field_names of
        Some st \<Rightarrow> Inl st
      | None \<Rightarrow> Inr (SchemaPartitionScheme (SchemaFromColumnNames schema field_names)))"

text \<open>\<open>HivePartitionSchemeDiscovery::Inspect\<close> and \<open>Finish\<close>.\<close>

fun Hive_Inspect_segments :: "string list \<Rightarrow> name_to_values \<Rightarrow> name_to_values" where
  "Hive_Inspect_segments [] m = m"
| "Hive_Inspect_segments (segment # rest) m =
     (case HivePartitionScheme_ParseKey segment of
        Some key \<Rightarrow> Hive_Inspect_segments rest (push_back_at (key_name key) (key_value key) m)
      | None \<Rightarrow> Hive_Inspect_segments rest m)"

fun Hive_Inspect_paths ::
  "(string \<Rightarrow> string list) \<Rightarrow> string list \<Rightarrow> name_to_values \<Rightarrow> name_to_values" where
  "Hive_Inspect_paths split [] m = m"
| "Hive_Inspect_paths split (path # rest) m =
     Hive_Inspect_paths split rest (Hive_Inspect_segments (split path) m)"

definition HivePartitionSchemeDiscovery_Inspect ::
  "(string \<Rightarrow> string list) \<Rightarrow> string list \<Rightarrow> Status + Schema" where
  "HivePartitionSchemeDiscovery_Inspect split paths =
     Inr (InferSchema (Hive_Inspect_paths split paths []))"

definition HivePartitionSchemeDiscovery_Finish :: "Schema \<Rightarrow> Status + PartitionScheme" where
  "HivePartitionSchemeDiscovery_Finish schema = Inr (HivePartitionScheme schema)"

section \<open>Collaborators, for running the code on concrete paths\<close>

text \<open>
  Modelled from the spec: \<open>fs::internal::SplitAbstractPath\<close> of the filesystem module,
  which is not among the sources; it turns an abstract slash-delimited path into the
  ordered sequence of its segments. One slash at either end is not a segment of its own.
\<close>

fun split_parts :: "string \<Rightarrow> string \<Rightarrow> string list" where
  "split_parts part [] = [part]"
| "split_parts part (c # s) =
     (if c = CHR ''/'' then part # split_parts [] s else split_parts (part @ [c]) s)"

definition SplitAbstractPath :: "string \<Rightarrow> string list" where
  "SplitAbstractPath s =
     (let v = (if s \<noteq> [] \<and> last s = CHR ''/'' then butlast s else s);
          w = (if v \<noteq> [] \<and> hd v = CHR ''/'' then tl v else v)
      in if w = [] then [] else split_parts [] w)"

text \<open>
  Modelled from the spec: \<open>Scalar::Parse\<close> of the type module, which is not among the
  sources; "scalar parsing of a string into a typed value per a field's declared type
  (fails with a type error on malformed input)". Any string is a \<open>utf8\<close> scalar; an
  integer scalar is written as decimal digits after an optional minus sign.
\<close>

definition decimal_value :: "string \<Rightarrow> int" where
  "decimal_value s = foldl (\<lambda>acc c. acc * 10 + (int (of_char c) - 48)) 0 s"

definition Scalar_Parse :: ScalarParser where
  "Scalar_Parse ty repr =
     (if ty = utf8 then Inr (StringScalar repr)
      else
        (let digits = (if repr \<noteq> [] \<and> hd repr = CHR ''-'' then tl repr else repr)
         in if digits \<noteq> [] \<and> find_first_not_of digits ''0123456789'' = None
            then Inr (NumericScalar ty
                       (if hd repr = CHR ''-'' then - decimal_value digits
                        else decimal_value digits))
            else Inl (TypeError (''error parsing '' @ repr))))"

text \<open>
  A parser that a caller may hand to \<open>FunctionPartitionScheme\<close>: it accepts no segment.
\<close>

definition reject_segment :: "string \<Rightarrow> nat \<Rightarrow> Status + Expression" where
  "reject_segment segment i = Inl (Invalid segment)"

section \<open>File sources\<close>

datatype SourceType = PATH | BUFFER

datatype Compression_type = UNCOMPRESSED | SNAPPY | GZIP | BROTLI | ZSTD | LZ4 | LZO | BZ2

text \<open>
  A \<open>fs::FileSystem*\<close> is the address it holds, 0 for \<open>NULLPTR\<close>. A buffer source holds
  a buffer, whose bytes are what \<open>Buffer::Equals\<close> compares.
\<close>

record PathAndFileSystem =
  pfs_path :: string
  pfs_filesystem :: nat

type_synonym Buffer = "8 word list"

datatype FileSource_variant = PathVariant PathAndFileSystem | BufferVariant Buffer

record FileSource =
  source_impl :: FileSource_variant
  source_compression :: Compression_type

definition FileSource_type :: "FileSource \<Rightarrow> SourceType" where
  "FileSource_type src = (case source_impl src of PathVariant p \<Rightarrow> PATH | BufferVariant b \<Rightarrow> BUFFER)"

definition FileSource_path :: "FileSource \<Rightarrow> string" where
  "FileSource_path src =
     (case source_impl src of PathVariant p \<Rightarrow> pfs_path p | BufferVariant b \<Rightarrow> ''<Buffer>'')"

definition FileSource_filesystem :: "FileSource \<Rightarrow> nat" where
  "FileSource_filesystem src =
     (case source_impl src of PathVariant p \<Rightarrow> pfs_filesystem p | BufferVariant b \<Rightarrow> 0)"

definition FileSource_buffer :: "FileSource \<Rightarrow> Buffer option" where
  "FileSource_buffer src =
     (case source_impl src of BufferVariant b \<Rightarrow> Some b | PathVariant p \<Rightarrow> None)"

text \<open>
  Modelled from the spec: \<open>Buffer::Equals\<close> of the buffer module, which is not among the
  sources; two buffers are equal when their contents are byte-equal.
\<close>

definition Buffer_Equals :: "Buffer \<Rightarrow> Buffer \<Rightarrow> bool" where
  "Buffer_Equals a b = (a = b)"

text \<open>\<open>FileSource::operator==\<close>.\<close>

definition FileSource_eq :: "FileSource \<Rightarrow> FileSource \<Rightarrow> bool" where
  "FileSource_eq this other =
     (if FileSource_type this \<noteq> FileSource_type other then False
      else if FileSource_type this = PATH then
        FileSource_path this = FileSource_path other
        \<and> FileSource_filesystem this = FileSource_filesystem other
      else Buffer_Equals (the (FileSource_buffer this)) (the (FileSource_buffer other)))"

section \<open>File system data sources\<close>

text \<open>
  Of \<open>FileSystemDataSource\<close> the sources hold the declaration only: the forest of the
  filesystem module and the body of \<open>GetFragmentsImpl\<close> are described by the spec, and
  the definitions of this section follow it.
\<close>

text \<open>
  Modelled from the spec: \<open>fs::PathForest\<close>, which is not among the sources; "a forest
  over abstract slash-delimited paths (files and the directories containing them)".
  A node has its index in the forest, by which the partition expressions are aligned,
  and its path; a directory has its children.
\<close>

datatype PathTree = FileNode nat string | DirectoryNode nat string "PathTree list"

record FileSystemDataSource =
  ds_filesystem :: nat
  ds_forest :: "PathTree list"
  ds_partitions :: "Expression list"
  ds_partition_expression :: Expression
  ds_format :: string

record ScanOptions =
  scan_filter :: Expression

record FileDataFragment =
  fragment_source :: FileSource
  fragment_format :: string
  fragment_partition :: Expression

text \<open>
  Modelled from the spec: the expression of a node, which is not among the sources;
  "missing annotations are treated as trivial true".
\<close>

definition partition_at :: "Expression list \<Rightarrow> nat \<Rightarrow> Expression" where
  "partition_at partitions i =
     (if i < length partitions then partitions ! i else scalar_bool True)"

text \<open>
  Modelled from the spec: \<open>FileFormat::MakeFragment\<close> as the data source calls it, which
  is not among the sources; the fragment of a file of the data source's filesystem,
  "carrying that accumulated predicate for downstream pushdown".
\<close>

definition MakeFragment :: "FileSystemDataSource \<Rightarrow> string \<Rightarrow> Expression \<Rightarrow> FileDataFragment" where
  "MakeFragment ds file_path accumulated =
     \<lparr>fragment_source =
        \<lparr>source_impl = PathVariant \<lparr>pfs_path = file_path, pfs_filesystem = ds_filesystem ds\<rparr>,
         source_compression = UNCOMPRESSED\<rparr>,
      fragment_format = ds_format ds,
      fragment_partition = accumulated\<rparr>"

text \<open>
  Modelled from the spec: the visit of one tree by \<open>GetFragmentsImpl\<close>, which is not
  among the sources. \<open>inherited\<close> holds the source-level expression and the expressions of
  the ancestors; a file whose accumulated predicate is "not provably unsatisfiable
  against the caller's scan predicate" is emitted, and a directory "contributes only to
  the accumulated predicate of its descendants". The test of the expression module is
  the parameter \<open>refuted\<close>.
\<close>

fun collect_fragments ::
  "(Expression \<Rightarrow> Expression \<Rightarrow> bool) \<Rightarrow> FileSystemDataSource \<Rightarrow> ScanOptions
     \<Rightarrow> Expression list \<Rightarrow> PathTree \<Rightarrow> FileDataFragment list" where
  "collect_fragments refuted ds options inherited (FileNode i file_path) =
     (let accumulated = and_vector (inherited @ [partition_at (ds_partitions ds) i])
      in if refuted (scan_filter options) accumulated then []
         else [MakeFragment ds file_path accumulated])"
| "collect_fragments refuted ds options inherited (DirectoryNode i dir_path children) =
     concat (map (collect_fragments refuted ds options
                    (inherited @ [partition_at (ds_partitions ds) i])) children)"

text \<open>
  Modelled from the spec: \<open>FileSystemDataSource::GetFragmentsImpl\<close>, of which only the
  declaration is among the sources; the fragments of all trees of the forest, in order.
\<close>

definition GetFragmentsImpl ::
  "(Expression \<Rightarrow> Expression \<Rightarrow> bool) \<Rightarrow> FileSystemDataSource \<Rightarrow> ScanOptions
     \<Rightarrow> FileDataFragment list" where
  "GetFragmentsImpl refuted ds options =
     concat (map (collect_fragments refuted ds options [ds_partition_expression ds])
               (ds_forest ds))"

section \<open>Notions of the specification\<close>

text \<open>The results of the per-segment parser at the positions 0, 1, 2, ... of the segments.\<close>

fun results_from ::
  "(string \<Rightarrow> nat \<Rightarrow> Status + Expression) \<Rightarrow> nat \<Rightarrow> string list \<Rightarrow> (Status + Expression) list" where
  "results_from P i [] = []"
| "results_from P i (segment # rest) = P segment i # results_from P (Suc i) rest"

definition segment_results ::
  "(string \<Rightarrow> nat \<Rightarrow> Status + Expression) \<Rightarrow> string list \<Rightarrow> (Status + Expression) list" where
  "segment_results P segments = results_from P 0 segments"

fun first_error :: "(Status + Expression) list \<Rightarrow> Status option" where
  "first_error [] = None"
| "first_error (Inl st # rs) = Some st"
| "first_error (Inr e # rs) = first_error rs"

fun successes :: "(Status + Expression) list \<Rightarrow> Expression list" where
  "successes [] = []"
| "successes (Inl st # rs) = successes rs"
| "successes (Inr e # rs) = e # successes rs"

definition non_trivial :: "Expression list \<Rightarrow> Expression list" where
  "non_trivial es = filter (\<lambda>e. e \<noteq> scalar_bool True) es"

text \<open>
  The conversions of the keys of the segments of a path, the key of a segment having
  the name of the field at its position, as far as both the segments and the fields go.
\<close>

definition positional_results ::
  "ScalarParser \<Rightarrow> Schema \<Rightarrow> string list \<Rightarrow> Field list \<Rightarrow> (Status + Expression) list" where
  "positional_results parse schema segments fs =
     map (\<lambda>(segment, f). ConvertKey parse \<lparr>key_name = field_name f, key_value = segment\<rparr> schema)
       (zip segments fs)"

text \<open>The keys that Hive discovery meets, walking the paths and their segments in order.\<close>

definition Hive_observed :: "(string \<Rightarrow> string list) \<Rightarrow> string list \<Rightarrow> Key list" where
  "Hive_observed split paths =
     List.map_filter HivePartitionScheme_ParseKey (concat (map split paths))"

text \<open>The keys that positional discovery meets: the i-th name with the i-th segment.\<close>

definition Schema_observed ::
  "(string \<Rightarrow> string list) \<Rightarrow> string list \<Rightarrow> string list \<Rightarrow> Key list" where
  "Schema_observed split field_names paths =
     concat (map (\<lambda>p. map (\<lambda>(n, v). \<lparr>key_name = n, key_value = v\<rparr>)
                          (zip field_names (split p))) paths)"

text \<open>The map after the keys have been pushed one by one, and the values under a name.\<close>

fun push_all :: "Key list \<Rightarrow> name_to_values \<Rightarrow> name_to_values" where
  "push_all [] m = m"
| "push_all (key # keys) m = push_all keys (push_back_at (key_name key) (key_value key) m)"

definition values_at :: "name_to_values \<Rightarrow> string \<Rightarrow> string list" where
  "values_at m k = (case map_of m k of None \<Rightarrow> [] | Some vs \<Rightarrow> vs)"

definition accumulated_values :: "Key list \<Rightarrow> string \<Rightarrow> string list" where
  "accumulated_values keys k = map key_value (filter (\<lambda>key. key_name key = k) keys)"

definition digits_only :: "string \<Rightarrow> bool" where
  "digits_only v = list_all (\<lambda>c. c \<in> set ''0123456789'') v"

definition inferred_type :: "string list \<Rightarrow> DataType" where
  "inferred_type vs = (if list_all digits_only vs then int32 else utf8)"

text \<open>The distinct elements of a list in the order of their first occurrence.\<close>

fun first_seen_from :: "string list \<Rightarrow> string list \<Rightarrow> string list" where
  "first_seen_from seen [] = seen"
| "first_seen_from seen (x # xs) =
     (if x \<in> set seen then first_seen_from seen xs else first_seen_from (seen @ [x]) xs)"

definition first_seen_order :: "string list \<Rightarrow> string list" where
  "first_seen_order xs = first_seen_from [] xs"

text \<open>
  A test that a caller may pass for \<open>refuted\<close>: only the scan predicate that is literally
  false is unsatisfiable.
\<close>

definition refuted_when_false :: "Expression \<Rightarrow> Expression \<Rightarrow> bool" where
  "refuted_when_false scan_predicate accumulated = (scan_predicate = scalar_bool False)"

text \<open>
  The files of a tree, in the order of the visit, each with its path and with its
  accumulated predicate.
\<close>

fun file_entries ::
  "FileSystemDataSource \<Rightarrow> Expression list \<Rightarrow> PathTree \<Rightarrow> (string \<times> Expression) list" where
  "file_entries ds inherited (FileNode i file_path) =
     [(file_path, and_vector (inherited @ [partition_at (ds_partitions ds) i]))]"
| "file_entries ds inherited (DirectoryNode i dir_path children) =
     concat (map (file_entries ds (inherited @ [partition_at (ds_partitions ds) i])) children)"

definition forest_entries :: "FileSystemDataSource \<Rightarrow> (string \<times> Expression) list" where
  "forest_entries ds =
     concat (map (file_entries ds [ds_partition_expression ds]) (ds_forest ds))"

text \<open>The files of a forest, and the paths of its files in the order of the visit.\<close>

fun count_files :: "PathTree \<Rightarrow> nat" where
  "count_files (FileNode i file_path) = 1"
| "count_files (DirectoryNode i dir_path children) = sum_list (map count_files children)"

fun file_paths :: "PathTree \<Rightarrow> string list" where
  "file_paths (FileNode i file_path) = [file_path]"
| "file_paths (DirectoryNode i dir_path children) = concat (map file_paths children)"

section \<open>Properties of the string operations\<close>

lemma find_first_of_takeWhile:
  "find_first_of s ch = (if ch \<in> set s then Some (length (takeWhile (\<lambda>c. c \<noteq> ch) s)) else None)"
  by (induction s) auto

lemma find_first_of_append:
  "ch \<notin> set l \<Longrightarrow> find_first_of (l @ ch # r) ch = Some (length l)"
  by (induction l) auto

lemma find_first_not_of_None:
  "(find_first_not_of s chars = None) = (set s \<subseteq> set chars)"
  by (induction s) simp_all

lemma substr_at_first:
  "substr s 0 (length (takeWhile (\<lambda>c. c \<noteq> ch) s)) = takeWhile (\<lambda>c. c \<noteq> ch) s"
  by (induction s) (simp_all add: substr_def)

lemma substr_from_after_first:
  "substr_from s (length (takeWhile (\<lambda>c. c \<noteq> ch) s) + 1) = tl (dropWhile (\<lambda>c. c \<noteq> ch) s)"
  by (induction s) (simp_all add: substr_from_def)

section \<open>Hive key extraction\<close>

text \<open>
  Claim C5. For every segment \<open>s\<close>, the Hive \<open>ParseKey\<close> returns no key when \<open>s\<close> has no
  \<open>=\<close>; otherwise it returns the key whose name is the part of \<open>s\<close> before the first \<open>=\<close>
  and whose value is everything after that first \<open>=\<close>. The position never affects the
  result.
\<close>

theorem Hive_ParseKey_splits_at_first_equals:
  "(CHR ''='' \<notin> set s \<longrightarrow> HivePartitionScheme_ParseKey s = None)
   \<and> (\<forall>l r. s = l @ CHR ''='' # r \<and> CHR ''='' \<notin> set l \<longrightarrow>
          HivePartitionScheme_ParseKey s = Some \<lparr>key_name = l, key_value = r\<rparr>)
   \<and> (CHR ''='' \<in> set s \<longrightarrow>
          HivePartitionScheme_ParseKey s =
            Some \<lparr>key_name = takeWhile (\<lambda>c. c \<noteq> CHR ''='') s,
                  key_value = tl (dropWhile (\<lambda>c. c \<noteq> CHR ''='') s)\<rparr>)
   \<and> HivePartitionScheme_ParseKey_at s i = HivePartitionScheme_ParseKey s
   \<and> HivePartitionScheme_ParseKey_at s i = HivePartitionScheme_ParseKey_at s j"
proof -
  have none: "CHR ''='' \<notin> set s \<longrightarrow> HivePartitionScheme_ParseKey s = None"
    by (simp add: HivePartitionScheme_ParseKey_def find_first_of_takeWhile)
  have parts: "\<forall>l r. s = l @ CHR ''='' # r \<and> CHR ''='' \<notin> set l \<longrightarrow>
          HivePartitionScheme_ParseKey s = Some \<lparr>key_name = l, key_value = r\<rparr>"
    by (auto simp add: HivePartitionScheme_ParseKey_def find_first_of_append substr_def
        substr_from_def)
  have first: "CHR ''='' \<in> set s \<longrightarrow>
          HivePartitionScheme_ParseKey s =
            Some \<lparr>key_name = takeWhile (\<lambda>c. c \<noteq> CHR ''='') s,
                  key_value = tl (dropWhile (\<lambda>c. c \<noteq> CHR ''='') s)\<rparr>"
    using substr_at_first [of s "CHR ''=''"] substr_from_after_first [of s "CHR ''=''"]
    by (simp add: HivePartitionScheme_ParseKey_def find_first_of_takeWhile)
  have pos: "HivePartitionScheme_ParseKey_at s i = HivePartitionScheme_ParseKey s"
    "HivePartitionScheme_ParseKey_at s i = HivePartitionScheme_ParseKey_at s j"
    by (simp_all add: HivePartitionScheme_ParseKey_at_def)
  from none parts first pos show ?thesis by blast
qed

theorem Hive_ParseKey_splits_at_first_equals_witness:
  "CHR ''='' \<notin> set ''2009'' \<and> HivePartitionScheme_ParseKey ''2009'' = None
   \<and> CHR ''='' \<in> set ''a=b=c''
   \<and> HivePartitionScheme_ParseKey ''a=b=c'' = Some \<lparr>key_name = ''a'', key_value = ''b=c''\<rparr>
   \<and> HivePartitionScheme_ParseKey_at ''a=b=c'' 0 = HivePartitionScheme_ParseKey_at ''a=b=c'' 7"
proof -
  have a: "CHR ''='' \<notin> set ''2009''" by simp
  have b: "CHR ''='' \<in> set ''a=b=c''" by simp
  have c: "''a=b=c'' = ''a'' @ CHR ''='' # ''b=c'' \<and> CHR ''='' \<notin> set ''a''" by simp
  from a Hive_ParseKey_splits_at_first_equals [of "''2009''" 0 7]
  have 1: "HivePartitionScheme_ParseKey ''2009'' = None" by blast
  from c Hive_ParseKey_splits_at_first_equals [of "''a=b=c''" 0 7]
  have 2: "HivePartitionScheme_ParseKey ''a=b=c'' = Some \<lparr>key_name = ''a'', key_value = ''b=c''\<rparr>"
    by blast
  from Hive_ParseKey_splits_at_first_equals [of "''a=b=c''" 0 7]
  have 3: "HivePartitionScheme_ParseKey_at ''a=b=c'' 0 = HivePartitionScheme_ParseKey_at ''a=b=c'' 7"
    by blast
  from a b 1 2 3 show ?thesis by blast
qed

section \<open>Parsing a path\<close>

lemma results_from_nth:
  "length (results_from P i segs) = length segs
   \<and> (\<forall>k<length segs. results_from P i segs ! k = P (segs ! k) (i + k))"
proof (induction segs arbitrary: i)
  case Nil
  then show ?case by simp
next
  case (Cons s segs)
  show ?case
  proof (intro conjI allI impI)
    show "length (results_from P i (s # segs)) = length (s # segs)"
      using Cons.IH [of "Suc i"] by simp
  next
    fix k assume "k < length (s # segs)"
    then show "results_from P i (s # segs) ! k = P ((s # segs) ! k) (i + k)"
      using Cons.IH [of "Suc i"] by (cases k) simp_all
  qed
qed

lemma Parse_loop_results:
  "Parse_loop P segs i acc =
     (case first_error (results_from P i segs) of
        Some st \<Rightarrow> Inl st
      | None \<Rightarrow> Inr (and_vector (acc @ non_trivial (successes (results_from P i segs)))))"
proof (induction segs arbitrary: i acc)
  case Nil
  then show ?case by (simp add: non_trivial_def)
next
  case (Cons s segs)
  show ?case
  proof (cases "P s i")
    case (Inl st)
    then show ?thesis by simp
  next
    case (Inr e)
    then show ?thesis
      using Cons.IH [of "Suc i" acc] Cons.IH [of "Suc i" "acc @ [e]"]
      by (simp add: non_trivial_def Equals_true_def split: option.split)
  qed
qed

lemma Parse_path_results:
  "Parse_path split parse S path =
     (case first_error (segment_results (Parse_segment parse S) (split path)) of
        Some st \<Rightarrow> Inl st
      | None \<Rightarrow> Inr (and_vector (non_trivial
           (successes (segment_results (Parse_segment parse S) (split path))))))"
  using Parse_loop_results [of "Parse_segment parse S" "split path" 0 "[]"]
  by (simp add: Parse_path_def segment_results_def split: option.split)

text \<open>
  Claim C1, as the code has it. \<open>Parse(path)\<close> splits the path, calls the per-segment
  \<open>Parse\<close> with the positions 0, 1, 2, ... from left to right, and stops with the status
  of the first segment whose parse fails. When no segment fails, it drops every result
  equal to the trivial true predicate and returns the conjunction of the others in
  their order; when all are dropped this is the empty conjunction, the trivial true
  predicate.
\<close>

theorem Parse_path_conjunction_or_first_error:
  "Parse_path split parse S path =
     (case first_error (segment_results (Parse_segment parse S) (split path)) of
        Some st \<Rightarrow> Inl st
      | None \<Rightarrow> Inr (and_vector (non_trivial
           (successes (segment_results (Parse_segment parse S) (split path))))))
   \<and> length (segment_results (Parse_segment parse S) (split path)) = length (split path)
   \<and> (\<forall>k<length (split path).
         segment_results (Parse_segment parse S) (split path) ! k
           = Parse_segment parse S (split path ! k) k)
   \<and> (first_error (segment_results (Parse_segment parse S) (split path)) = None
        \<and> non_trivial (successes (segment_results (Parse_segment parse S) (split path))) = []
      \<longrightarrow> Parse_path split parse S path = Inr (scalar_bool True))"
proof -
  let ?rs = "segment_results (Parse_segment parse S) (split path)"
  have shape: "Parse_path split parse S path =
     (case first_error ?rs of
        Some st \<Rightarrow> Inl st
      | None \<Rightarrow> Inr (and_vector (non_trivial (successes ?rs))))"
    by (rule Parse_path_results)
  have positions: "length ?rs = length (split path)
     \<and> (\<forall>k<length (split path). ?rs ! k = Parse_segment parse S (split path ! k) k)"
    using results_from_nth [of "Parse_segment parse S" 0 "split path"]
    by (simp add: segment_results_def)
  have empty: "first_error ?rs = None \<and> non_trivial (successes ?rs) = []
      \<longrightarrow> Parse_path split parse S path = Inr (scalar_bool True)"
    using shape by simp
  from shape positions empty show ?thesis by blast
qed

theorem Parse_path_conjunction_or_first_error_witness:
  "first_error (segment_results (Parse_segment Scalar_Parse DefaultPartitionScheme)
      (SplitAbstractPath ''/a/b'')) = None
   \<and> non_trivial (successes (segment_results (Parse_segment Scalar_Parse DefaultPartitionScheme)
      (SplitAbstractPath ''/a/b''))) = []
   \<and> (1::nat) < length (SplitAbstractPath ''/a/b'')
   \<and> segment_results (Parse_segment Scalar_Parse DefaultPartitionScheme)
        (SplitAbstractPath ''/a/b'') ! 1
       = Parse_segment Scalar_Parse DefaultPartitionScheme (SplitAbstractPath ''/a/b'' ! 1) 1
   \<and> Parse_path SplitAbstractPath Scalar_Parse DefaultPartitionScheme ''/a/b''
       = Inr (scalar_bool True)"
proof -
  have segs: "SplitAbstractPath ''/a/b'' = [''a'', ''b'']"
    by (simp add: SplitAbstractPath_def)
  have rs: "segment_results (Parse_segment Scalar_Parse DefaultPartitionScheme) [''a'', ''b'']
      = [Inr (scalar_bool True), Inr (scalar_bool True)]"
    by (simp add: segment_results_def)
  have h1: "first_error (segment_results (Parse_segment Scalar_Parse DefaultPartitionScheme)
      (SplitAbstractPath ''/a/b'')) = None"
    by (simp add: segs rs)
  have h2: "non_trivial (successes (segment_results (Parse_segment Scalar_Parse DefaultPartitionScheme)
      (SplitAbstractPath ''/a/b''))) = []"
    by (simp add: segs rs non_trivial_def)
  have h3: "(1::nat) < length (SplitAbstractPath ''/a/b'')"
    by (simp add: segs)
  note inst = Parse_path_conjunction_or_first_error
    [of SplitAbstractPath Scalar_Parse DefaultPartitionScheme "''/a/b''"]
  from inst h3 have c1: "segment_results (Parse_segment Scalar_Parse DefaultPartitionScheme)
        (SplitAbstractPath ''/a/b'') ! 1
       = Parse_segment Scalar_Parse DefaultPartitionScheme (SplitAbstractPath ''/a/b'' ! 1) 1"
    by blast
  from inst h1 h2 have c2: "Parse_path SplitAbstractPath Scalar_Parse DefaultPartitionScheme ''/a/b''
       = Inr (scalar_bool True)"
    by blast
  from h1 h2 h3 c1 c2 show ?thesis by blast
qed

theorem Parse_path_conjunction_counterexample:
  "Parse_path SplitAbstractPath Scalar_Parse
     (HivePartitionScheme [\<lparr>field_name = ''year'', field_type = int16\<rparr>]) ''/year=abc''
     = Inl (TypeError ''error parsing abc'')
   \<and> Parse_path SplitAbstractPath Scalar_Parse
     (FunctionPartitionScheme [] reject_segment ''function'') ''/2009''
     = Inl (Invalid ''2009'')"
  by (simp add: Parse_path_def SplitAbstractPath_def PartitionKeysScheme_Parse_def
      HivePartitionScheme_ParseKey_at_def HivePartitionScheme_ParseKey_def substr_def
      substr_from_def ConvertKey_def GetFieldByName_def Scalar_Parse_def reject_segment_def)

section \<open>Converting keys\<close>

lemma GetFieldByName_None:
  "(GetFieldByName schema n = None) = (n \<notin> field_name ` set schema)"
  by (auto simp add: GetFieldByName_def find_None_iff)

lemma GetFieldByName_Some:
  "GetFieldByName schema n = Some f \<Longrightarrow> f \<in> set schema \<and> field_name f = n"
  by (auto simp add: GetFieldByName_def find_Some_iff)

text \<open>
  Claim C3. \<open>ConvertKey\<close> returns the trivial true predicate, not an error, when no field
  of the schema has the name of the key. When the schema has such a field and the value
  parses as a scalar of the type of that field, it returns the equality of the field and
  the scalar; when the value does not parse as that type, it fails with the error of the
  scalar parser.
\<close>

theorem ConvertKey_by_field:
  "(key_name key \<notin> field_name ` set schema \<longrightarrow>
      ConvertKey parse key schema = Inr (scalar_bool True))
   \<and> (key_name key \<in> field_name ` set schema \<longrightarrow>
        (\<exists>f \<in> set schema. field_name f = key_name key
           \<and> GetFieldByName schema (key_name key) = Some f
           \<and> (\<forall>v. parse (field_type f) (key_value key) = Inr v \<longrightarrow>
                 ConvertKey parse key schema = Inr (equal (field_ref (key_name key)) (scalar v)))
           \<and> (\<forall>st. parse (field_type f) (key_value key) = Inl st \<longrightarrow>
                 ConvertKey parse key schema = Inl st)))"
proof (intro conjI impI)
  assume "key_name key \<notin> field_name ` set schema"
  then have "GetFieldByName schema (key_name key) = None"
    by (simp add: GetFieldByName_None)
  then show "ConvertKey parse key schema = Inr (scalar_bool True)"
    by (simp add: ConvertKey_def)
next
  assume "key_name key \<in> field_name ` set schema"
  then have "GetFieldByName schema (key_name key) \<noteq> None"
    by (simp add: GetFieldByName_None)
  then obtain f where f: "GetFieldByName schema (key_name key) = Some f"
    by blast
  then have mem: "f \<in> set schema" and nm: "field_name f = key_name key"
    using GetFieldByName_Some [of schema "key_name key" f] by simp_all
  have ok: "\<forall>v. parse (field_type f) (key_value key) = Inr v \<longrightarrow>
      ConvertKey parse key schema = Inr (equal (field_ref (key_name key)) (scalar v))"
    using f nm by (simp add: ConvertKey_def)
  have bad: "\<forall>st. parse (field_type f) (key_value key) = Inl st \<longrightarrow>
      ConvertKey parse key schema = Inl st"
    using f by (simp add: ConvertKey_def)
  from mem nm f ok bad
  show "\<exists>f \<in> set schema. field_name f = key_name key
           \<and> GetFieldByName schema (key_name key) = Some f
           \<and> (\<forall>v. parse (field_type f) (key_value key) = Inr v \<longrightarrow>
                 ConvertKey parse key schema = Inr (equal (field_ref (key_name key)) (scalar v)))
           \<and> (\<forall>st. parse (field_type f) (key_value key) = Inl st \<longrightarrow>
                 ConvertKey parse key schema = Inl st)"
    by blast
qed

theorem ConvertKey_by_field_witness:
  "''ignored'' \<notin> field_name ` set [\<lparr>field_name = ''year'', field_type = int16\<rparr>]
   \<and> ConvertKey Scalar_Parse \<lparr>key_name = ''ignored'', key_value = ''3.4''\<rparr>
        [\<lparr>field_name = ''year'', field_type = int16\<rparr>] = Inr (scalar_bool True)
   \<and> ''year'' \<in> field_name ` set [\<lparr>field_name = ''year'', field_type = int16\<rparr>]
   \<and> Scalar_Parse int16 ''2009'' = Inr (NumericScalar int16 2009)
   \<and> ConvertKey Scalar_Parse \<lparr>key_name = ''year'', key_value = ''2009''\<rparr>
        [\<lparr>field_name = ''year'', field_type = int16\<rparr>]
       = Inr (equal (field_ref ''year'') (scalar (NumericScalar int16 2009)))
   \<and> Scalar_Parse int16 ''abc'' = Inl (TypeError ''error parsing abc'')
   \<and> ConvertKey Scalar_Parse \<lparr>key_name = ''year'', key_value = ''abc''\<rparr>
        [\<lparr>field_name = ''year'', field_type = int16\<rparr>]
       = Inl (TypeError ''error parsing abc'')"
proof -
  let ?schema = "[\<lparr>field_name = ''year'', field_type = int16\<rparr>]"
  have absent: "''ignored'' \<notin> field_name ` set ?schema" by simp
  have present: "''year'' \<in> field_name ` set ?schema" by simp
  have good: "Scalar_Parse int16 ''2009'' = Inr (NumericScalar int16 2009)"
    by (simp add: Scalar_Parse_def decimal_value_def)
  have bad: "Scalar_Parse int16 ''abc'' = Inl (TypeError ''error parsing abc'')"
    by (simp add: Scalar_Parse_def)
  have 1: "ConvertKey Scalar_Parse \<lparr>key_name = ''ignored'', key_value = ''3.4''\<rparr> ?schema
      = Inr (scalar_bool True)"
    using absent
      ConvertKey_by_field [of "\<lparr>key_name = ''ignored'', key_value = ''3.4''\<rparr>" ?schema Scalar_Parse]
    by simp
  have 2: "ConvertKey Scalar_Parse \<lparr>key_name = ''year'', key_value = ''2009''\<rparr> ?schema
      = Inr (equal (field_ref ''year'') (scalar (NumericScalar int16 2009)))"
    using present good
      ConvertKey_by_field [of "\<lparr>key_name = ''year'', key_value = ''2009''\<rparr>" ?schema Scalar_Parse]
    by simp
  have 3: "ConvertKey Scalar_Parse \<lparr>key_name = ''year'', key_value = ''abc''\<rparr> ?schema
      = Inl (TypeError ''error parsing abc'')"
    using present bad
      ConvertKey_by_field [of "\<lparr>key_name = ''year'', key_value = ''abc''\<rparr>" ?schema Scalar_Parse]
    by simp
  from absent present good bad 1 2 3 show ?thesis by blast
qed

section \<open>Positional key extraction\<close>

lemma trivial_results_from:
  "\<forall>segment k. i \<le> k \<longrightarrow> P segment k = Inr (scalar_bool True) \<Longrightarrow>
     first_error (results_from P i segs) = None
     \<and> non_trivial (successes (results_from P i segs)) = []"
proof (induction segs arbitrary: i)
  case Nil
  then show ?case by (simp add: non_trivial_def)
next
  case (Cons s segs)
  have here: "P s i = Inr (scalar_bool True)"
    using Cons.prems by simp
  have later: "\<forall>segment k. Suc i \<le> k \<longrightarrow> P segment k = Inr (scalar_bool True)"
    using Cons.prems by simp
  show ?case
    using here Cons.IH [OF later] by (simp add: non_trivial_def)
qed

lemma positional_results_from:
  assumes P: "\<forall>segment k. P segment k =
     (if k < length schema
      then ConvertKey parse \<lparr>key_name = field_name (schema ! k), key_value = segment\<rparr> schema
      else Inr (scalar_bool True))"
  shows "first_error (results_from P i segs)
     = first_error (positional_results parse schema segs (drop i schema))
   \<and> non_trivial (successes (results_from P i segs))
     = non_trivial (successes (positional_results parse schema segs (drop i schema)))"
proof (induction segs arbitrary: i)
  case Nil
  then show ?case by (simp add: positional_results_def)
next
  case (Cons s segs)
  show ?case
  proof (cases "i < length schema")
    case True
    then have d: "drop i schema = schema ! i # drop (Suc i) schema"
      by (simp add: Cons_nth_drop_Suc)
    have here: "P s i = ConvertKey parse \<lparr>key_name = field_name (schema ! i), key_value = s\<rparr> schema"
      using P True by simp
    have unfold: "positional_results parse schema (s # segs) (drop i schema)
        = P s i # positional_results parse schema segs (drop (Suc i) schema)"
      by (simp add: d here positional_results_def)
    show ?thesis
    proof (cases "P s i")
      case (Inl st)
      then show ?thesis
        using Cons.IH [of "Suc i"] by (simp add: unfold)
    next
      case (Inr e)
      then show ?thesis
        using Cons.IH [of "Suc i"] by (simp add: unfold non_trivial_def)
    qed
  next
    case False
    then have triv: "\<forall>segment k. i \<le> k \<longrightarrow> P segment k = Inr (scalar_bool True)"
      using P by simp
    show ?thesis
      using False trivial_results_from [OF triv, of "s # segs"]
      by (simp add: positional_results_def non_trivial_def)
  qed
qed

lemma all_successes:
  "\<forall>k < length rs. \<exists>e. rs ! k = Inr e \<Longrightarrow>
     first_error rs = None \<and> successes rs = map projr rs
     \<and> (\<forall>k < length rs. rs ! k = Inr (map projr rs ! k))"
proof (induction rs)
  case Nil
  then show ?case by simp
next
  case (Cons r rs)
  have "0 < length (r # rs)" by simp
  then obtain e where r: "r = Inr e"
    using Cons.prems by fastforce
  have rest: "\<forall>k < length rs. \<exists>e. rs ! k = Inr e"
  proof (intro allI impI)
    fix k assume "k < length rs"
    then have "Suc k < length (r # rs)" by simp
    then have "\<exists>e. (r # rs) ! Suc k = Inr e"
      using Cons.prems by blast
    then show "\<exists>e. rs ! k = Inr e" by simp
  qed
  have IH: "first_error rs = None \<and> successes rs = map projr rs
     \<and> (\<forall>k < length rs. rs ! k = Inr (map projr rs ! k))"
    by (rule Cons.IH [OF rest])
  have nth: "\<forall>k < length (r # rs). (r # rs) ! k = Inr (map projr (r # rs) ! k)"
  proof (intro allI impI)
    fix k assume k: "k < length (r # rs)"
    show "(r # rs) ! k = Inr (map projr (r # rs) ! k)"
    proof (cases k)
      case 0
      then show ?thesis by (simp add: r)
    next
      case (Suc j)
      then have "j < length rs" using k by simp
      then have "rs ! j = Inr (map projr rs ! j)" using IH by blast
      then show ?thesis using Suc by simp
    qed
  qed
  have fe: "first_error (r # rs) = None"
    using IH by (simp add: r)
  have su: "successes (r # rs) = map projr (r # rs)"
    using IH by (simp add: r)
  show ?case
    by (rule conjI [OF fe conjI [OF su nth]])
qed

text \<open>
  Claim C6, as the code has it. The positional \<open>ParseKey\<close> returns no key at a position
  \<open>i\<close> with \<open>i \<ge> n\<close>, where \<open>n\<close> is the number of fields, and the name of field \<open>i\<close> with
  the segment when \<open>i < n\<close>. Consequently the parse of a path with fewer segments than
  \<open>n\<close> succeeds whenever \<open>ConvertKey\<close> succeeds on the key of every segment present, the
  key of the segment at position \<open>k\<close> being the name of field \<open>k\<close> with that segment as
  its value. The result is then the conjunction of the non-trivial results of these
  conversions and of nothing else: the trailing fields have no conjuncts of their own.
\<close>

theorem Schema_ParseKey_by_position:
  "(i \<ge> length schema \<longrightarrow> SchemaPartitionScheme_ParseKey schema s i = None)
   \<and> (i < length schema \<longrightarrow>
        SchemaPartitionScheme_ParseKey schema s i
          = Some \<lparr>key_name = field_name (schema ! i), key_value = s\<rparr>)
   \<and> (length (split path) < length schema
        \<and> (\<forall>k < length (split path). \<exists>e.
              ConvertKey parse \<lparr>key_name = field_name (schema ! k), key_value = split path ! k\<rparr>
                schema = Inr e)
      \<longrightarrow> (\<exists>es. length es = length (split path)
             \<and> (\<forall>k < length (split path).
                   ConvertKey parse
                     \<lparr>key_name = field_name (schema ! k), key_value = split path ! k\<rparr> schema
                     = Inr (es ! k))
             \<and> Parse_path split parse (SchemaPartitionScheme schema) path
                 = Inr (and_vector (non_trivial es))))"
proof -
  have none: "i \<ge> length schema \<longrightarrow> SchemaPartitionScheme_ParseKey schema s i = None"
    by (simp add: SchemaPartitionScheme_ParseKey_def)
  have some: "i < length schema \<longrightarrow>
        SchemaPartitionScheme_ParseKey schema s i
          = Some \<lparr>key_name = field_name (schema ! i), key_value = s\<rparr>"
    by (simp add: SchemaPartitionScheme_ParseKey_def)
  have short: "length (split path) < length schema
        \<and> (\<forall>k < length (split path). \<exists>e.
              ConvertKey parse \<lparr>key_name = field_name (schema ! k), key_value = split path ! k\<rparr>
                schema = Inr e)
      \<longrightarrow> (\<exists>es. length es = length (split path)
             \<and> (\<forall>k < length (split path).
                   ConvertKey parse
                     \<lparr>key_name = field_name (schema ! k), key_value = split path ! k\<rparr> schema
                     = Inr (es ! k))
             \<and> Parse_path split parse (SchemaPartitionScheme schema) path
                 = Inr (and_vector (non_trivial es)))"
  proof
    let ?rs = "positional_results parse schema (split path) schema"
    let ?es = "map projr ?rs"
    assume h: "length (split path) < length schema
        \<and> (\<forall>k < length (split path). \<exists>e.
              ConvertKey parse \<lparr>key_name = field_name (schema ! k), key_value = split path ! k\<rparr>
                schema = Inr e)"
    have len: "length ?rs = length (split path)"
      using h by (simp add: positional_results_def)
    have nth: "\<forall>k < length (split path). ?rs ! k
        = ConvertKey parse \<lparr>key_name = field_name (schema ! k), key_value = split path ! k\<rparr>
            schema"
      using h by (simp add: positional_results_def)
    have "\<forall>k < length ?rs. \<exists>e. ?rs ! k = Inr e"
    proof (intro allI impI)
      fix k assume "k < length ?rs"
      then have k: "k < length (split path)" by (simp only: len)
      then have "\<exists>e. ConvertKey parse
          \<lparr>key_name = field_name (schema ! k), key_value = split path ! k\<rparr> schema = Inr e"
        using h by blast
      then show "\<exists>e. ?rs ! k = Inr e"
        using nth k by simp
    qed
    then have ok: "first_error ?rs = None \<and> successes ?rs = ?es
        \<and> (\<forall>k < length ?rs. ?rs ! k = Inr (?es ! k))"
      by (rule all_successes)
    have P: "\<forall>segment k. Parse_segment parse (SchemaPartitionScheme schema) segment k =
      (if k < length schema
       then ConvertKey parse \<lparr>key_name = field_name (schema ! k), key_value = segment\<rparr> schema
       else Inr (scalar_bool True))"
      by (simp add: PartitionKeysScheme_Parse_def SchemaPartitionScheme_ParseKey_def)
    have "Parse_path split parse (SchemaPartitionScheme schema) path =
       (case first_error ?rs of
          Some st \<Rightarrow> Inl st
        | None \<Rightarrow> Inr (and_vector (non_trivial (successes ?rs))))"
      using Parse_path_results [of split parse "SchemaPartitionScheme schema" path]
        positional_results_from [OF P, of 0 "split path"]
      by (simp only: segment_results_def drop_0)
    then have ret: "Parse_path split parse (SchemaPartitionScheme schema) path
        = Inr (and_vector (non_trivial ?es))"
      using ok by simp
    have l: "length ?es = length (split path)"
      using len by simp
    have conv: "\<forall>k < length (split path).
        ConvertKey parse \<lparr>key_name = field_name (schema ! k), key_value = split path ! k\<rparr> schema
          = Inr (?es ! k)"
    proof (intro allI impI)
      fix k assume k: "k < length (split path)"
      then have "k < length ?rs" by (simp only: len)
      then have "?rs ! k = Inr (?es ! k)"
        using ok by blast
      then show "ConvertKey parse
          \<lparr>key_name = field_name (schema ! k), key_value = split path ! k\<rparr> schema
          = Inr (?es ! k)"
        using nth k by simp
    qed
    show "\<exists>es. length es = length (split path)
             \<and> (\<forall>k < length (split path).
                   ConvertKey parse
                     \<lparr>key_name = field_name (schema ! k), key_value = split path ! k\<rparr> schema
                     = Inr (es ! k))
             \<and> Parse_path split parse (SchemaPartitionScheme schema) path
                 = Inr (and_vector (non_trivial es))"
      by (intro exI [of _ ?es] conjI l conv ret)
  qed
  show ?thesis
    by (rule conjI [OF none conjI [OF some short]])
qed

theorem Schema_ParseKey_by_position_witness:
  "(2::nat) \<ge> length [\<lparr>field_name = ''year'', field_type = int16\<rparr>,
                        \<lparr>field_name = ''month'', field_type = int8\<rparr>]
   \<and> SchemaPartitionScheme_ParseKey
        [\<lparr>field_name = ''year'', field_type = int16\<rparr>, \<lparr>field_name = ''month'', field_type = int8\<rparr>]
        ''2009'' 2 = None
   \<and> (0::nat) < length [\<lparr>field_name = ''year'', field_type = int16\<rparr>,
                         \<lparr>field_name = ''month'', field_type = int8\<rparr>]
   \<and> SchemaPartitionScheme_ParseKey
        [\<lparr>field_name = ''year'', field_type = int16\<rparr>, \<lparr>field_name = ''month'', field_type = int8\<rparr>]
        ''2009'' 0 = Some \<lparr>key_name = ''year'', key_value = ''2009''\<rparr>
   \<and> length (SplitAbstractPath ''/2009'')
       < length [\<lparr>field_name = ''year'', field_type = int16\<rparr>,
                 \<lparr>field_name = ''month'', field_type = int8\<rparr>]
   \<and> ConvertKey Scalar_Parse \<lparr>key_name = ''year'', key_value = ''2009''\<rparr>
        [\<lparr>field_name = ''year'', field_type = int16\<rparr>, \<lparr>field_name = ''month'', field_type = int8\<rparr>]
       = Inr (equal (field_ref ''year'') (scalar (NumericScalar int16 2009)))
   \<and> Parse_path SplitAbstractPath Scalar_Parse
        (SchemaPartitionScheme
          [\<lparr>field_name = ''year'', field_type = int16\<rparr>, \<lparr>field_name = ''month'', field_type = int8\<rparr>])
        ''/2009''
       = Inr (equal (field_ref ''year'') (scalar (NumericScalar int16 2009)))"
proof -
  let ?schema = "[\<lparr>field_name = ''year'', field_type = int16\<rparr>,
                  \<lparr>field_name = ''month'', field_type = int8\<rparr>]"
  let ?e = "equal (field_ref ''year'') (scalar (NumericScalar int16 2009))"
  have h1: "(2::nat) \<ge> length ?schema" by simp
  have h2: "(0::nat) < length ?schema" by simp
  have c1: "SchemaPartitionScheme_ParseKey ?schema ''2009'' 2 = None"
    using h1 Schema_ParseKey_by_position [of ?schema 2 "''2009''"] by blast
  have c2: "SchemaPartitionScheme_ParseKey ?schema ''2009'' 0
      = Some \<lparr>key_name = ''year'', key_value = ''2009''\<rparr>"
    using h2 Schema_ParseKey_by_position [of ?schema 0 "''2009''"] by simp
  have segs: "SplitAbstractPath ''/2009'' = [''2009'']"
    by (simp add: SplitAbstractPath_def)
  have h3: "length (SplitAbstractPath ''/2009'') < length ?schema"
    by (simp add: segs)
  have conv: "ConvertKey Scalar_Parse \<lparr>key_name = ''year'', key_value = ''2009''\<rparr> ?schema = Inr ?e"
    by (simp add: ConvertKey_def GetFieldByName_def Scalar_Parse_def decimal_value_def)
  have h4: "\<forall>k < length (SplitAbstractPath ''/2009''). \<exists>e.
      ConvertKey Scalar_Parse
        \<lparr>key_name = field_name (?schema ! k), key_value = SplitAbstractPath ''/2009'' ! k\<rparr>
        ?schema = Inr e"
    by (simp add: segs conv)
  have "length (SplitAbstractPath ''/2009'') < length ?schema
        \<and> (\<forall>k < length (SplitAbstractPath ''/2009''). \<exists>e.
              ConvertKey Scalar_Parse
                \<lparr>key_name = field_name (?schema ! k), key_value = SplitAbstractPath ''/2009'' ! k\<rparr>
                ?schema = Inr e)
      \<longrightarrow> (\<exists>es. length es = length (SplitAbstractPath ''/2009'')
             \<and> (\<forall>k < length (SplitAbstractPath ''/2009'').
                   ConvertKey Scalar_Parse
                     \<lparr>key_name = field_name (?schema ! k),
                      key_value = SplitAbstractPath ''/2009'' ! k\<rparr> ?schema
                     = Inr (es ! k))
             \<and> Parse_path SplitAbstractPath Scalar_Parse (SchemaPartitionScheme ?schema) ''/2009''
                 = Inr (and_vector (non_trivial es)))"
    using Schema_ParseKey_by_position
      [of ?schema 0 "''2009''" SplitAbstractPath "''/2009''" Scalar_Parse]
    by (rule conjunct2 [THEN conjunct2])
  from this conjI [OF h3 h4]
  have "\<exists>es. length es = length (SplitAbstractPath ''/2009'')
             \<and> (\<forall>k < length (SplitAbstractPath ''/2009'').
                   ConvertKey Scalar_Parse
                     \<lparr>key_name = field_name (?schema ! k),
                      key_value = SplitAbstractPath ''/2009'' ! k\<rparr> ?schema
                     = Inr (es ! k))
             \<and> Parse_path SplitAbstractPath Scalar_Parse (SchemaPartitionScheme ?schema) ''/2009''
                 = Inr (and_vector (non_trivial es))"
    by (rule mp)
  then obtain es where es: "length es = length (SplitAbstractPath ''/2009'')
             \<and> (\<forall>k < length (SplitAbstractPath ''/2009'').
                   ConvertKey Scalar_Parse
                     \<lparr>key_name = field_name (?schema ! k),
                      key_value = SplitAbstractPath ''/2009'' ! k\<rparr> ?schema
                     = Inr (es ! k))
             \<and> Parse_path SplitAbstractPath Scalar_Parse (SchemaPartitionScheme ?schema) ''/2009''
                 = Inr (and_vector (non_trivial es))" ..
  from es have l: "length es = 1"
    by (simp add: segs)
  from es have "ConvertKey Scalar_Parse \<lparr>key_name = ''year'', key_value = ''2009''\<rparr> ?schema
      = Inr (es ! 0)"
    by (simp add: segs)
  then have e0: "es ! 0 = ?e"
    by (simp only: conv) simp
  have "es = [es ! 0]"
    using l by (cases es) simp_all
  then have es1: "es = [?e]"
    by (simp only: e0)
  from es have "Parse_path SplitAbstractPath Scalar_Parse (SchemaPartitionScheme ?schema) ''/2009''
      = Inr (and_vector (non_trivial es))"
    by (rule conjunct2 [THEN conjunct2])
  then have c3: "Parse_path SplitAbstractPath Scalar_Parse (SchemaPartitionScheme ?schema) ''/2009''
      = Inr ?e"
    by (simp only: es1)
       (simp add: non_trivial_def equal_def scalar_def scalar_bool_def field_ref_def)
  show ?thesis
    by (rule conjI [OF h1 conjI [OF c1 conjI [OF h2 conjI [OF c2 conjI [OF h3 conjI [OF conv c3]]]]]])
qed

theorem short_path_never_fails_counterexample:
  "length (SplitAbstractPath ''/abc'')
     < length [\<lparr>field_name = ''year'', field_type = int16\<rparr>,
               \<lparr>field_name = ''month'', field_type = int8\<rparr>]
   \<and> Parse_path SplitAbstractPath Scalar_Parse
        (SchemaPartitionScheme
          [\<lparr>field_name = ''year'', field_type = int16\<rparr>, \<lparr>field_name = ''month'', field_type = int8\<rparr>])
        ''/abc''
       = Inl (TypeError ''error parsing abc'')"
  by (simp add: Parse_path_def SplitAbstractPath_def PartitionKeysScheme_Parse_def
      SchemaPartitionScheme_ParseKey_def ConvertKey_def GetFieldByName_def Scalar_Parse_def)

section \<open>The map from names to values\<close>

lemma keys_push_back_at:
  "set (map fst (push_back_at k v m)) = insert k (set (map fst m))"
  by (induction k v m rule: push_back_at.induct) (simp_all add: insert_commute)

lemma values_at_Cons:
  "values_at ((k0, vs) # m) k = (if k = k0 then vs else values_at m k)"
  by (simp add: values_at_def)

lemma sorted_push_back_at:
  "sorted_wrt (<) (map fst m) \<Longrightarrow> sorted_wrt (<) (map fst (push_back_at k v m))"
proof (induction m)
  case Nil
  then show ?case by simp
next
  case (Cons entry m)
  obtain k' vs where entry: "entry = (k', vs)" by (cases entry)
  have below: "\<forall>x \<in> set (map fst m). k' < x"
    using Cons.prems entry by simp
  have rest: "sorted_wrt (<) (map fst m)"
    using Cons.prems by simp
  consider (same) "k = k'" | (before) "k \<noteq> k'" "k < k'" | (after) "k \<noteq> k'" "\<not> k < k'"
    by blast
  then show ?case
  proof cases
    case same
    then show ?thesis using Cons.prems entry by simp
  next
    case before
    then show ?thesis using Cons.prems entry below by auto
  next
    case after
    then have "k' < k" by simp
    then have "\<forall>x \<in> set (map fst (push_back_at k v m)). k' < x"
      using below by (simp only: keys_push_back_at) simp
    then show ?thesis
      using after entry Cons.IH [OF rest] by simp
  qed
qed

lemma values_push_back_at:
  "sorted_wrt (<) (map fst m) \<Longrightarrow>
     values_at (push_back_at k v m) k' = (if k' = k then values_at m k @ [v] else values_at m k')"
proof (induction m)
  case Nil
  then show ?case by (simp add: values_at_def)
next
  case (Cons entry m)
  obtain k0 vs where entry: "entry = (k0, vs)" by (cases entry)
  have below: "\<forall>x \<in> set (map fst m). k0 < x"
    using Cons.prems entry by simp
  have rest: "sorted_wrt (<) (map fst m)"
    using Cons.prems by simp
  consider (same) "k = k0" | (before) "k \<noteq> k0" "k < k0" | (after) "k \<noteq> k0" "\<not> k < k0"
    by blast
  then show ?case
  proof cases
    case same
    then show ?thesis using entry by (simp add: values_at_Cons)
  next
    case before
    have "k \<notin> set (map fst m)"
      using below before by auto
    then have "map_of m k = None"
      by (simp add: map_of_eq_None_iff)
    then have "values_at m k = []"
      by (simp add: values_at_def)
    then show ?thesis
      using before entry by (simp add: values_at_Cons)
  next
    case after
    then show ?thesis
      using entry Cons.IH [OF rest] by (cases "k' = k") (simp_all add: values_at_Cons)
  qed
qed

lemma push_all_append:
  "push_all (a @ b) m = push_all b (push_all a m)"
  by (induction a arbitrary: m) simp_all

lemma sorted_push_all:
  "sorted_wrt (<) (map fst m) \<Longrightarrow> sorted_wrt (<) (map fst (push_all keys m))"
  by (induction keys arbitrary: m) (simp_all add: sorted_push_back_at)

lemma keys_push_all:
  "set (map fst (push_all keys m)) = set (map fst m) \<union> set (map key_name keys)"
proof (induction keys arbitrary: m)
  case Nil
  then show ?case by simp
next
  case (Cons key keys)
  show ?case
    using Cons.IH [of "push_back_at (key_name key) (key_value key) m"]
    by (simp only: push_all.simps keys_push_back_at) auto
qed

lemma values_push_all:
  "sorted_wrt (<) (map fst m) \<Longrightarrow>
     values_at (push_all keys m) k = values_at m k @ accumulated_values keys k"
proof (induction keys arbitrary: m)
  case Nil
  then show ?case by (simp add: accumulated_values_def)
next
  case (Cons key keys)
  have s: "sorted_wrt (<) (map fst (push_back_at (key_name key) (key_value key) m))"
    using Cons.prems by (rule sorted_push_back_at)
  show ?case
    using Cons.IH [OF s] values_push_back_at [OF Cons.prems, of "key_name key" "key_value key" k]
    by (simp add: accumulated_values_def)
qed

lemma Hive_Inspect_segments_push_all:
  "Hive_Inspect_segments segs m = push_all (List.map_filter HivePartitionScheme_ParseKey segs) m"
  by (induction segs arbitrary: m) (simp_all split: option.split)

lemma Hive_Inspect_paths_push_all:
  "Hive_Inspect_paths split paths m = push_all (Hive_observed split paths) m"
proof (induction paths arbitrary: m)
  case Nil
  then show ?case by (simp add: Hive_observed_def)
next
  case (Cons p paths)
  have "Hive_observed split (p # paths)
      = List.map_filter HivePartitionScheme_ParseKey (split p) @ Hive_observed split paths"
    by (simp add: Hive_observed_def List.map_filter_def)
  then show ?case
    using Cons.IH by (simp add: Hive_Inspect_segments_push_all push_all_append)
qed

lemma Schema_Inspect_segments_push_all:
  "idx \<le> length names \<Longrightarrow>
     Schema_Inspect_segments names idx segs m =
       push_all (map (\<lambda>(n, v). \<lparr>key_name = n, key_value = v\<rparr>) (zip (drop idx names) segs)) m"
proof (induction segs arbitrary: idx m)
  case Nil
  then show ?case by simp
next
  case (Cons s segs)
  show ?case
  proof (cases "idx = length names")
    case True
    then show ?thesis by simp
  next
    case False
    then have lt: "idx < length names" using Cons.prems by simp
    then have d: "drop idx names = names ! idx # drop (Suc idx) names"
      by (simp add: Cons_nth_drop_Suc)
    have le: "Suc idx \<le> length names" using lt by simp
    show ?thesis
      using False Cons.IH [OF le] by (simp add: d)
  qed
qed

lemma Schema_Inspect_paths_push_all:
  "Schema_Inspect_paths split names paths m = push_all (Schema_observed split names paths) m"
proof (induction paths arbitrary: m)
  case Nil
  then show ?case by (simp add: Schema_observed_def)
next
  case (Cons p paths)
  have "Schema_observed split names (p # paths)
      = map (\<lambda>(n, v). \<lparr>key_name = n, key_value = v\<rparr>) (zip names (split p))
        @ Schema_observed split names paths"
    by (simp add: Schema_observed_def)
  then show ?case
    using Cons.IH Schema_Inspect_segments_push_all [of 0 names "split p" m]
    by (simp add: push_all_append)
qed

section \<open>Inferring a schema\<close>

lemma AllIntegral_digits_only:
  "AllIntegral vs = list_all digits_only vs"
  unfolding AllIntegral_def digits_only_def find_first_not_of_None list_all_iff
  by blast

lemma names_InferSchema:
  "map field_name (InferSchema m) = map fst m"
  by (simp add: InferSchema_def)

lemma GetFieldByName_InferSchema:
  "GetFieldByName (InferSchema m) k =
     map_option (\<lambda>vs. \<lparr>field_name = k, field_type = inferred_type vs\<rparr>) (map_of m k)"
  by (induction m)
     (auto simp add: GetFieldByName_def InferSchema_def inferred_type_def AllIntegral_digits_only)

lemma map_of_values_at:
  "k \<in> set (map fst m) \<Longrightarrow> map_of m k = Some (values_at m k)"
  by (auto simp add: values_at_def map_of_eq_None_iff split: option.split)

lemma inferred_field:
  assumes "k \<in> set (map key_name keys)"
  shows "GetFieldByName (InferSchema (push_all keys [])) k
     = Some \<lparr>field_name = k, field_type = inferred_type (accumulated_values keys k)\<rparr>"
proof -
  have mem: "k \<in> set (map fst (push_all keys []))"
    using assms by (simp only: keys_push_all) simp
  have vals: "values_at (push_all keys []) k = accumulated_values keys k"
    using values_push_all [of "[]" keys k] by (simp add: values_at_def)
  show ?thesis
    using map_of_values_at [OF mem] vals by (simp add: GetFieldByName_InferSchema)
qed

lemma names_inferred:
  "sorted_wrt (<) (map field_name (InferSchema (push_all keys [])))
   \<and> set (map field_name (InferSchema (push_all keys []))) = set (map key_name keys)"
  using sorted_push_all [of "[]" keys] keys_push_all [of keys "[]"]
  by (simp only: names_InferSchema) simp

section \<open>Hive discovery\<close>

lemma Hive_Inspect_push_all:
  "HivePartitionSchemeDiscovery_Inspect split paths
     = Inr (InferSchema (push_all (Hive_observed split paths) []))"
  by (simp add: HivePartitionSchemeDiscovery_Inspect_def Hive_Inspect_paths_push_all)

text \<open>
  Claim C2, as the code has it. For every corpus of paths, the \<open>Inspect\<close> of Hive
  discovery returns a schema with one field for each key name met, and the fields are
  in the ascending order of their names (the order in which \<open>std::map\<close> keeps its keys,
  strings compared byte by byte), whatever the order in which the names were first seen.
\<close>

theorem Hive_Inspect_fields_sorted_by_name:
  "\<exists>schema. HivePartitionSchemeDiscovery_Inspect split paths = Inr schema
     \<and> sorted_wrt (<) (map field_name schema)
     \<and> set (map field_name schema) = set (map key_name (Hive_observed split paths))
     \<and> map field_name schema
         = sorted_list_of_set (set (map key_name (Hive_observed split paths)))"
proof -
  let ?schema = "InferSchema (push_all (Hive_observed split paths) [])"
  have ret: "HivePartitionSchemeDiscovery_Inspect split paths = Inr ?schema"
    by (rule Hive_Inspect_push_all)
  have srt: "sorted_wrt (<) (map field_name ?schema)"
    and names: "set (map field_name ?schema) = set (map key_name (Hive_observed split paths))"
    using names_inferred [of "Hive_observed split paths"] by blast+
  have "sorted (map field_name ?schema) \<and> distinct (map field_name ?schema)"
    using srt by (simp only: strict_sorted_iff)
  then have "sorted_list_of_set (set (map field_name ?schema)) = map field_name ?schema"
    by (simp only: sorted_list_of_set.idem_if_sorted_distinct)
  then have "map field_name ?schema
      = sorted_list_of_set (set (map key_name (Hive_observed split paths)))"
    by (simp only: names)
  with ret srt names show ?thesis by blast
qed

theorem Hive_Inspect_first_seen_order_counterexample:
  "HivePartitionSchemeDiscovery_Inspect SplitAbstractPath [''/b=1/a=2'']
     = Inr [\<lparr>field_name = ''a'', field_type = int32\<rparr>, \<lparr>field_name = ''b'', field_type = int32\<rparr>]
   \<and> first_seen_order (map key_name (Hive_observed SplitAbstractPath [''/b=1/a=2'']))
     = [''b'', ''a'']
   \<and> map field_name
        [\<lparr>field_name = ''a'', field_type = int32\<rparr>, \<lparr>field_name = ''b'', field_type = int32\<rparr>]
     \<noteq> first_seen_order (map key_name (Hive_observed SplitAbstractPath [''/b=1/a=2'']))"
proof -
  have segs: "SplitAbstractPath ''/b=1/a=2'' = [''b=1'', ''a=2'']"
    by (simp add: SplitAbstractPath_def)
  have kb: "HivePartitionScheme_ParseKey ''b=1'' = Some \<lparr>key_name = ''b'', key_value = ''1''\<rparr>"
    by (simp add: HivePartitionScheme_ParseKey_def substr_def substr_from_def)
  have ka: "HivePartitionScheme_ParseKey ''a=2'' = Some \<lparr>key_name = ''a'', key_value = ''2''\<rparr>"
    by (simp add: HivePartitionScheme_ParseKey_def substr_def substr_from_def)
  have lt: "''a'' < ''b''" by simp
  have m: "Hive_Inspect_paths SplitAbstractPath [''/b=1/a=2''] []
      = [(''a'', [''2'']), (''b'', [''1''])]"
    using lt by (simp add: segs kb ka)
  have inspect: "HivePartitionSchemeDiscovery_Inspect SplitAbstractPath [''/b=1/a=2'']
     = Inr [\<lparr>field_name = ''a'', field_type = int32\<rparr>, \<lparr>field_name = ''b'', field_type = int32\<rparr>]"
    by (simp only: HivePartitionSchemeDiscovery_Inspect_def m)
       (simp add: InferSchema_def AllIntegral_def)
  have seen: "first_seen_order (map key_name (Hive_observed SplitAbstractPath [''/b=1/a=2'']))
     = [''b'', ''a'']"
    by (simp add: Hive_observed_def segs kb ka first_seen_order_def)
  have differ: "map field_name
        [\<lparr>field_name = ''a'', field_type = int32\<rparr>, \<lparr>field_name = ''b'', field_type = int32\<rparr>]
     \<noteq> first_seen_order (map key_name (Hive_observed SplitAbstractPath [''/b=1/a=2'']))"
    by (simp only: seen) simp
  from inspect seen differ show ?thesis by blast
qed

section \<open>Inferred types\<close>

lemma GetFieldByName_SchemaFromColumnNames:
  "GetFieldByName (SchemaFromColumnNames input names) k
     = (if k \<in> set names then GetFieldByName input k else None)"
proof (induction names)
  case Nil
  then show ?case by (simp add: SchemaFromColumnNames_def GetFieldByName_def)
next
  case (Cons n names)
  have IH: "GetFieldByName (SchemaFromColumnNames input names) k
     = (if k \<in> set names then GetFieldByName input k else None)"
    by (rule Cons.IH)
  show ?case
  proof (cases "GetFieldByName input n")
    case None
    then have "SchemaFromColumnNames input (n # names) = SchemaFromColumnNames input names"
      by (simp add: SchemaFromColumnNames_def)
    then show ?thesis
      using None IH by auto
  next
    case (Some f)
    then have unfold: "SchemaFromColumnNames input (n # names)
        = f # SchemaFromColumnNames input names"
      by (simp add: SchemaFromColumnNames_def)
    have nm: "field_name f = n"
      using GetFieldByName_Some [OF Some] by simp
    have head: "GetFieldByName (f # rest) k
        = (if field_name f = k then Some f else GetFieldByName rest k)" for rest
      by (simp add: GetFieldByName_def)
    show ?thesis
      using Some nm IH by (auto simp add: unfold head)
  qed
qed

lemma Schema_observed_names:
  "set (map key_name (Schema_observed split field_names paths)) \<subseteq> set field_names"
  by (auto simp add: Schema_observed_def dest: set_zip_leftD)

lemma Schema_Inspect_push_all:
  "SchemaPartitionSchemeDiscovery_Inspect split field_names paths
     = Inr (SchemaFromColumnNames
              (InferSchema (push_all (Schema_observed split field_names paths) [])) field_names)"
  by (simp add: SchemaPartitionSchemeDiscovery_Inspect_def Schema_Inspect_paths_push_all)

lemma Hive_inferred_field:
  assumes "k \<in> set (map key_name (Hive_observed split paths))"
  shows "\<exists>schema. HivePartitionSchemeDiscovery_Inspect split paths = Inr schema
        \<and> GetFieldByName schema k
            = Some \<lparr>field_name = k,
                    field_type = inferred_type (accumulated_values (Hive_observed split paths) k)\<rparr>"
  using inferred_field [OF assms] by (simp add: Hive_Inspect_push_all)

lemma Schema_inferred_field:
  assumes "k \<in> set (map key_name (Schema_observed split field_names paths))"
  shows "\<exists>schema. SchemaPartitionSchemeDiscovery_Inspect split field_names paths = Inr schema
        \<and> GetFieldByName schema k
            = Some \<lparr>field_name = k,
                    field_type = inferred_type
                      (accumulated_values (Schema_observed split field_names paths) k)\<rparr>"
proof -
  have "k \<in> set field_names"
    using assms Schema_observed_names [of split field_names paths] by blast
  then show ?thesis
    using inferred_field [OF assms]
    by (simp add: Schema_Inspect_push_all GetFieldByName_SchemaFromColumnNames)
qed

lemma all_digits_only:
  "list_all digits_only vs = (\<forall>v \<in> set vs. \<forall>c \<in> set v. c \<in> set ''0123456789'')"
  unfolding digits_only_def list_all_iff by (rule refl)

lemma inferred_type_int32:
  "(inferred_type vs = int32) = (\<forall>v \<in> set vs. \<forall>c \<in> set v. c \<in> set ''0123456789'')"
  unfolding all_digits_only [symmetric] by (simp add: inferred_type_def)

lemma inferred_type_utf8:
  "(inferred_type vs = utf8) = (\<not> (\<forall>v \<in> set vs. \<forall>c \<in> set v. c \<in> set ''0123456789''))"
  unfolding all_digits_only [symmetric] by (simp add: inferred_type_def)

text \<open>
  Claim C7. For every key observed during discovery, Hive or positional, the inferred
  schema has a field of that name, whose type is \<open>int32\<close> when every value accumulated
  for the key consists of the decimal digits 0-9 only, and \<open>utf8\<close> otherwise. The values
  5, 12, 2020 infer \<open>int32\<close>; the values 5, abc infer \<open>utf8\<close>.
\<close>

theorem inferred_type_by_digits:
  "(\<forall>k \<in> set (map key_name (Hive_observed split paths)).
      \<exists>schema. HivePartitionSchemeDiscovery_Inspect split paths = Inr schema
        \<and> GetFieldByName schema k
            = Some \<lparr>field_name = k,
                    field_type = inferred_type (accumulated_values (Hive_observed split paths) k)\<rparr>)
   \<and> (\<forall>k \<in> set (map key_name (Schema_observed split field_names paths)).
      \<exists>schema. SchemaPartitionSchemeDiscovery_Inspect split field_names paths = Inr schema
        \<and> GetFieldByName schema k
            = Some \<lparr>field_name = k,
                    field_type = inferred_type
                      (accumulated_values (Schema_observed split field_names paths) k)\<rparr>)
   \<and> (inferred_type vs = int32) = (\<forall>v \<in> set vs. \<forall>c \<in> set v. c \<in> set ''0123456789'')
   \<and> (inferred_type vs = utf8) = (\<not> (\<forall>v \<in> set vs. \<forall>c \<in> set v. c \<in> set ''0123456789''))
   \<and> (if AllIntegral vs then int32 else utf8) = inferred_type vs
   \<and> inferred_type [''5'', ''12'', ''2020''] = int32
   \<and> inferred_type [''5'', ''abc''] = utf8"
proof -
  have hive: "\<forall>k \<in> set (map key_name (Hive_observed split paths)).
      \<exists>schema. HivePartitionSchemeDiscovery_Inspect split paths = Inr schema
        \<and> GetFieldByName schema k
            = Some \<lparr>field_name = k,
                    field_type = inferred_type (accumulated_values (Hive_observed split paths) k)\<rparr>"
    using Hive_inferred_field by blast
  have positional: "\<forall>k \<in> set (map key_name (Schema_observed split field_names paths)).
      \<exists>schema. SchemaPartitionSchemeDiscovery_Inspect split field_names paths = Inr schema
        \<and> GetFieldByName schema k
            = Some \<lparr>field_name = k,
                    field_type = inferred_type
                      (accumulated_values (Schema_observed split field_names paths) k)\<rparr>"
    using Schema_inferred_field by blast
  have i32: "(inferred_type vs = int32) = (\<forall>v \<in> set vs. \<forall>c \<in> set v. c \<in> set ''0123456789'')"
    by (rule inferred_type_int32)
  have u8: "(inferred_type vs = utf8) = (\<not> (\<forall>v \<in> set vs. \<forall>c \<in> set v. c \<in> set ''0123456789''))"
    by (rule inferred_type_utf8)
  have code: "(if AllIntegral vs then int32 else utf8) = inferred_type vs"
    by (simp add: inferred_type_def AllIntegral_digits_only)
  have ex1: "inferred_type [''5'', ''12'', ''2020''] = int32"
    by (simp add: inferred_type_def digits_only_def)
  have ex2: "inferred_type [''5'', ''abc''] = utf8"
    by (simp add: inferred_type_def digits_only_def)
  from hive positional i32 u8 code ex1 ex2 show ?thesis by blast
qed

theorem inferred_type_by_digits_witness:
  "''year'' \<in> set (map key_name (Hive_observed SplitAbstractPath [''/year=5/m=abc'', ''/year=12'']))
   \<and> accumulated_values (Hive_observed SplitAbstractPath [''/year=5/m=abc'', ''/year=12'']) ''year''
       = [''5'', ''12'']
   \<and> (\<exists>schema. HivePartitionSchemeDiscovery_Inspect SplitAbstractPath
          [''/year=5/m=abc'', ''/year=12''] = Inr schema
        \<and> GetFieldByName schema ''year'' = Some \<lparr>field_name = ''year'', field_type = int32\<rparr>)
   \<and> ''a'' \<in> set (map key_name (Schema_observed SplitAbstractPath [''a''] [''/5'', ''/abc/7'']))
   \<and> accumulated_values (Schema_observed SplitAbstractPath [''a''] [''/5'', ''/abc/7'']) ''a''
       = [''5'', ''abc'']
   \<and> (\<exists>schema. SchemaPartitionSchemeDiscovery_Inspect SplitAbstractPath [''a'']
          [''/5'', ''/abc/7''] = Inr schema
        \<and> GetFieldByName schema ''a'' = Some \<lparr>field_name = ''a'', field_type = utf8\<rparr>)"
proof -
  let ?paths = "[''/year=5/m=abc'', ''/year=12'']"
  let ?qaths = "[''/5'', ''/abc/7'']"
  have obs: "Hive_observed SplitAbstractPath ?paths
      = [\<lparr>key_name = ''year'', key_value = ''5''\<rparr>, \<lparr>key_name = ''m'', key_value = ''abc''\<rparr>,
         \<lparr>key_name = ''year'', key_value = ''12''\<rparr>]"
    by (simp add: Hive_observed_def SplitAbstractPath_def HivePartitionScheme_ParseKey_def
        substr_def substr_from_def)
  have h1: "''year'' \<in> set (map key_name (Hive_observed SplitAbstractPath ?paths))"
    by (simp add: obs)
  have v1: "accumulated_values (Hive_observed SplitAbstractPath ?paths) ''year'' = [''5'', ''12'']"
    by (simp add: obs accumulated_values_def)
  have t1: "inferred_type [''5'', ''12''] = int32"
    by (simp add: inferred_type_def digits_only_def)
  have pobs: "Schema_observed SplitAbstractPath [''a''] ?qaths
      = [\<lparr>key_name = ''a'', key_value = ''5''\<rparr>, \<lparr>key_name = ''a'', key_value = ''abc''\<rparr>]"
    by (simp add: Schema_observed_def SplitAbstractPath_def)
  have h2: "''a'' \<in> set (map key_name (Schema_observed SplitAbstractPath [''a''] ?qaths))"
    by (simp add: pobs)
  have v2: "accumulated_values (Schema_observed SplitAbstractPath [''a''] ?qaths) ''a''
      = [''5'', ''abc'']"
    by (simp add: pobs accumulated_values_def)
  have t2: "inferred_type [''5'', ''abc''] = utf8"
    by (simp add: inferred_type_def digits_only_def)
  note inst = inferred_type_by_digits [of SplitAbstractPath ?paths "[''a'']" "[]"]
  note jnst = inferred_type_by_digits [of SplitAbstractPath ?qaths "[''a'']" "[]"]
  have c1: "\<exists>schema. HivePartitionSchemeDiscovery_Inspect SplitAbstractPath ?paths = Inr schema
        \<and> GetFieldByName schema ''year'' = Some \<lparr>field_name = ''year'', field_type = int32\<rparr>"
  proof -
    from inst h1 have "\<exists>schema. HivePartitionSchemeDiscovery_Inspect SplitAbstractPath ?paths = Inr schema
        \<and> GetFieldByName schema ''year''
            = Some \<lparr>field_name = ''year'', field_type = inferred_type
                (accumulated_values (Hive_observed SplitAbstractPath ?paths) ''year'')\<rparr>"
      by blast
    then show ?thesis by (simp only: v1 t1)
  qed
  have c2: "\<exists>schema. SchemaPartitionSchemeDiscovery_Inspect SplitAbstractPath [''a''] ?qaths
          = Inr schema
        \<and> GetFieldByName schema ''a'' = Some \<lparr>field_name = ''a'', field_type = utf8\<rparr>"
  proof -
    from jnst h2 have "\<exists>schema. SchemaPartitionSchemeDiscovery_Inspect SplitAbstractPath [''a''] ?qaths
          = Inr schema
        \<and> GetFieldByName schema ''a''
            = Some \<lparr>field_name = ''a'', field_type = inferred_type
                (accumulated_values (Schema_observed SplitAbstractPath [''a''] ?qaths) ''a'')\<rparr>"
      by blast
    then show ?thesis by (simp only: v2 t2)
  qed
  from h1 v1 c1 h2 v2 c2 show ?thesis by blast
qed



section \<open>Finishing positional discovery\<close>

lemma GetFieldIndex_from_missing:
  "0 \<le> i \<Longrightarrow> (GetFieldIndex_from i schema n = - 1) = (n \<notin> field_name ` set schema)"
  by (induction schema arbitrary: i) auto

lemma GetFieldIndex_missing:
  "(GetFieldIndex schema n = - 1) = (n \<notin> field_name ` set schema)"
  by (simp add: GetFieldIndex_def GetFieldIndex_from_missing)

lemma Finish_missing_None:
  "(Finish_missing schema names = None) = (\<forall>n \<in> set names. n \<in> field_name ` set schema)"
  by (induction names) (simp_all add: GetFieldIndex_missing)

lemma Finish_missing_Some:
  "Finish_missing schema names = Some st \<Longrightarrow> \<exists>msg. st = TypeError msg"
  by (induction names) (auto split: if_splits)

lemma SchemaFromColumnNames_present:
  "\<forall>n \<in> set names. n \<in> field_name ` set schema \<Longrightarrow>
     SchemaFromColumnNames schema names = map (\<lambda>n. the (GetFieldByName schema n)) names"
proof (induction names)
  case Nil
  then show ?case by (simp add: SchemaFromColumnNames_def)
next
  case (Cons n names)
  have "GetFieldByName schema n \<noteq> None"
    using Cons.prems by (simp add: GetFieldByName_None)
  then obtain f where f: "GetFieldByName schema n = Some f" by blast
  have rest: "SchemaFromColumnNames schema names = map (\<lambda>n. the (GetFieldByName schema n)) names"
    using Cons.IH Cons.prems by simp
  have "SchemaFromColumnNames schema (n # names) = f # SchemaFromColumnNames schema names"
    using f by (simp add: SchemaFromColumnNames_def)
  then show ?case
    using f rest by simp
qed

text \<open>
  Claim C4. For every list \<open>F\<close> of required field names and every schema, the \<open>Finish\<close> of
  positional discovery fails with a \<open>TypeError\<close> when some name of \<open>F\<close> has no field in the
  schema. Otherwise it succeeds with a positional scheme whose schema has exactly the
  fields named in \<open>F\<close>, in the order of \<open>F\<close>, each of them the field that the input schema
  has under that name; no other field of the input is kept.
\<close>

theorem Schema_Finish_requires_fields:
  "((\<exists>n \<in> set F. n \<notin> field_name ` set schema) \<longrightarrow>
      (\<exists>msg. SchemaPartitionSchemeDiscovery_Finish F schema = Inl (TypeError msg)))
   \<and> ((\<forall>n \<in> set F. n \<in> field_name ` set schema) \<longrightarrow>
      (\<exists>out. SchemaPartitionSchemeDiscovery_Finish F schema = Inr (SchemaPartitionScheme out)
         \<and> map field_name out = F
         \<and> length out = length F
         \<and> set out \<subseteq> set schema
         \<and> (\<forall>i < length F. GetFieldByName schema (F ! i) = Some (out ! i))))"
proof (intro conjI impI)
  assume "\<exists>n \<in> set F. n \<notin> field_name ` set schema"
  then have "Finish_missing schema F \<noteq> None"
    by (simp add: Finish_missing_None)
  then obtain st where st: "Finish_missing schema F = Some st" by blast
  then obtain msg where "st = TypeError msg"
    using Finish_missing_Some by blast
  then show "\<exists>msg. SchemaPartitionSchemeDiscovery_Finish F schema = Inl (TypeError msg)"
    using st by (simp add: SchemaPartitionSchemeDiscovery_Finish_def)
next
  assume all: "\<forall>n \<in> set F. n \<in> field_name ` set schema"
  let ?out = "map (\<lambda>n. the (GetFieldByName schema n)) F"
  have found: "\<exists>f. GetFieldByName schema n = Some f \<and> f \<in> set schema \<and> field_name f = n"
    if "n \<in> set F" for n
  proof -
    have "GetFieldByName schema n \<noteq> None"
      using all that by (simp add: GetFieldByName_None)
    then obtain f where "GetFieldByName schema n = Some f" by blast
    then show ?thesis using GetFieldByName_Some [of schema n f] by simp
  qed
  have ok: "Finish_missing schema F = None"
    using all by (simp add: Finish_missing_None)
  have ret: "SchemaPartitionSchemeDiscovery_Finish F schema = Inr (SchemaPartitionScheme ?out)"
    using ok SchemaFromColumnNames_present [OF all]
    by (simp add: SchemaPartitionSchemeDiscovery_Finish_def)
  have names: "map field_name ?out = F"
  proof -
    have "\<forall>n \<in> set F. field_name (the (GetFieldByName schema n)) = n"
      using found by fastforce
    then show ?thesis by (simp add: map_idI)
  qed
  have len: "length ?out = length F" by simp
  have sub: "set ?out \<subseteq> set schema"
    using found by fastforce
  have nth: "\<forall>i < length F. GetFieldByName schema (F ! i) = Some (?out ! i)"
  proof (intro allI impI)
    fix i assume i: "i < length F"
    then have "F ! i \<in> set F" by simp
    then obtain f where "GetFieldByName schema (F ! i) = Some f"
      using found by blast
    then show "GetFieldByName schema (F ! i) = Some (?out ! i)"
      using i by simp
  qed
  from ret names len sub nth
  show "\<exists>out. SchemaPartitionSchemeDiscovery_Finish F schema = Inr (SchemaPartitionScheme out)
         \<and> map field_name out = F
         \<and> length out = length F
         \<and> set out \<subseteq> set schema
         \<and> (\<forall>i < length F. GetFieldByName schema (F ! i) = Some (out ! i))"
    by blast
qed

theorem Schema_Finish_requires_fields_witness:
  "(\<exists>n \<in> set [''year'', ''month'']. n \<notin> field_name ` set [\<lparr>field_name = ''year'', field_type = int16\<rparr>])
   \<and> (\<exists>msg. SchemaPartitionSchemeDiscovery_Finish [''year'', ''month'']
          [\<lparr>field_name = ''year'', field_type = int16\<rparr>] = Inl (TypeError msg))
   \<and> list_all (\<lambda>n. n \<in> field_name ` set [\<lparr>field_name = ''year'', field_type = int16\<rparr>,
                                             \<lparr>field_name = ''extra'', field_type = utf8\<rparr>,
                                             \<lparr>field_name = ''month'', field_type = int8\<rparr>])
        [''month'', ''year'']
   \<and> (\<exists>out. SchemaPartitionSchemeDiscovery_Finish [''month'', ''year'']
          [\<lparr>field_name = ''year'', field_type = int16\<rparr>,
           \<lparr>field_name = ''extra'', field_type = utf8\<rparr>,
           \<lparr>field_name = ''month'', field_type = int8\<rparr>] = Inr (SchemaPartitionScheme out)
        \<and> map field_name out = [''month'', ''year''])
   \<and> SchemaPartitionSchemeDiscovery_Finish [''month'', ''year'']
          [\<lparr>field_name = ''year'', field_type = int16\<rparr>,
           \<lparr>field_name = ''extra'', field_type = utf8\<rparr>,
           \<lparr>field_name = ''month'', field_type = int8\<rparr>]
       = Inr (SchemaPartitionScheme
               [\<lparr>field_name = ''month'', field_type = int8\<rparr>,
                \<lparr>field_name = ''year'', field_type = int16\<rparr>])"
proof -
  let ?small = "[\<lparr>field_name = ''year'', field_type = int16\<rparr>]"
  let ?big = "[\<lparr>field_name = ''year'', field_type = int16\<rparr>,
               \<lparr>field_name = ''extra'', field_type = utf8\<rparr>,
               \<lparr>field_name = ''month'', field_type = int8\<rparr>]"
  have h1: "\<exists>n \<in> set [''year'', ''month'']. n \<notin> field_name ` set ?small"
    by simp
  have h2: "\<forall>n \<in> set [''month'', ''year'']. n \<in> field_name ` set ?big"
    by simp
  have c1: "\<exists>msg. SchemaPartitionSchemeDiscovery_Finish [''year'', ''month''] ?small
      = Inl (TypeError msg)"
  proof -
    have "(\<exists>n \<in> set [''year'', ''month'']. n \<notin> field_name ` set ?small) \<longrightarrow>
      (\<exists>msg. SchemaPartitionSchemeDiscovery_Finish [''year'', ''month''] ?small
         = Inl (TypeError msg))"
      using Schema_Finish_requires_fields [of "[''year'', ''month'']" ?small] by (rule conjunct1)
    from this h1 show ?thesis by (rule mp)
  qed
  have c2: "\<exists>out. SchemaPartitionSchemeDiscovery_Finish [''month'', ''year''] ?big
          = Inr (SchemaPartitionScheme out)
        \<and> map field_name out = [''month'', ''year'']"
  proof -
    have "(\<forall>n \<in> set [''month'', ''year'']. n \<in> field_name ` set ?big) \<longrightarrow>
      (\<exists>out. SchemaPartitionSchemeDiscovery_Finish [''month'', ''year''] ?big
           = Inr (SchemaPartitionScheme out)
         \<and> map field_name out = [''month'', ''year'']
         \<and> length out = length [''month'', ''year'']
         \<and> set out \<subseteq> set ?big
         \<and> (\<forall>i < length [''month'', ''year''].
               GetFieldByName ?big ([''month'', ''year''] ! i) = Some (out ! i)))"
      using Schema_Finish_requires_fields [of "[''month'', ''year'']" ?big] by (rule conjunct2)
    from this h2 have "\<exists>out. SchemaPartitionSchemeDiscovery_Finish [''month'', ''year''] ?big
           = Inr (SchemaPartitionScheme out)
         \<and> map field_name out = [''month'', ''year'']
         \<and> length out = length [''month'', ''year'']
         \<and> set out \<subseteq> set ?big
         \<and> (\<forall>i < length [''month'', ''year''].
               GetFieldByName ?big ([''month'', ''year''] ! i) = Some (out ! i))"
      by (rule mp)
    then obtain out where out: "SchemaPartitionSchemeDiscovery_Finish [''month'', ''year''] ?big
           = Inr (SchemaPartitionScheme out)
         \<and> map field_name out = [''month'', ''year'']
         \<and> length out = length [''month'', ''year'']
         \<and> set out \<subseteq> set ?big
         \<and> (\<forall>i < length [''month'', ''year''].
               GetFieldByName ?big ([''month'', ''year''] ! i) = Some (out ! i))" ..
    from out have a: "SchemaPartitionSchemeDiscovery_Finish [''month'', ''year''] ?big
           = Inr (SchemaPartitionScheme out)"
      by (rule conjunct1)
    from out have b: "map field_name out = [''month'', ''year'']"
      by (rule conjunct2 [THEN conjunct1])
    show ?thesis
      by (intro exI [of _ out] conjI a b)
  qed
  have run: "SchemaPartitionSchemeDiscovery_Finish [''month'', ''year''] ?big
       = Inr (SchemaPartitionScheme
               [\<lparr>field_name = ''month'', field_type = int8\<rparr>,
                \<lparr>field_name = ''year'', field_type = int16\<rparr>])"
    by (simp add: SchemaPartitionSchemeDiscovery_Finish_def GetFieldIndex_def
        SchemaFromColumnNames_def GetFieldByName_def)
  have h2': "list_all (\<lambda>n. n \<in> field_name ` set ?big) [''month'', ''year'']"
    by simp
  show ?thesis
    by (rule conjI [OF h1 conjI [OF c1 conjI [OF h2' conjI [OF c2 run]]]])
qed

section \<open>Equality of file sources\<close>

text \<open>
  Claim C8. The equality of file sources is structural. Two path sources are equal
  exactly when their paths are equal and their filesystems are the same; two buffer
  sources are equal exactly when their contents are byte-equal; a path source and a
  buffer source are never equal. The compression tag takes no part.
\<close>

theorem FileSource_eq_structural:
  "FileSource_eq \<lparr>source_impl = PathVariant \<lparr>pfs_path = p, pfs_filesystem = fs\<rparr>,
                   source_compression = c\<rparr>
                 \<lparr>source_impl = PathVariant \<lparr>pfs_path = p', pfs_filesystem = fs'\<rparr>,
                   source_compression = c'\<rparr>
     = (p = p' \<and> fs = fs')
   \<and> FileSource_eq \<lparr>source_impl = BufferVariant b, source_compression = c\<rparr>
                   \<lparr>source_impl = BufferVariant b', source_compression = c'\<rparr>
     = (b = b')
   \<and> FileSource_eq \<lparr>source_impl = PathVariant \<lparr>pfs_path = p, pfs_filesystem = fs\<rparr>,
                     source_compression = c\<rparr>
                   \<lparr>source_impl = BufferVariant b', source_compression = c'\<rparr>
     = False
   \<and> FileSource_eq \<lparr>source_impl = BufferVariant b, source_compression = c\<rparr>
                   \<lparr>source_impl = PathVariant \<lparr>pfs_path = p', pfs_filesystem = fs'\<rparr>,
                     source_compression = c'\<rparr>
     = False
   \<and> FileSource_eq x y
     = (FileSource_type x = FileSource_type y
        \<and> (case (source_impl x, source_impl y) of
              (PathVariant px, PathVariant pz) \<Rightarrow>
                 pfs_path px = pfs_path pz \<and> pfs_filesystem px = pfs_filesystem pz
            | (BufferVariant bx, BufferVariant bz) \<Rightarrow> bx = bz
            | (PathVariant px, BufferVariant bz) \<Rightarrow> False
            | (BufferVariant bx, PathVariant pz) \<Rightarrow> False))"
proof -
  have paths: "FileSource_eq \<lparr>source_impl = PathVariant \<lparr>pfs_path = p, pfs_filesystem = fs\<rparr>,
                   source_compression = c\<rparr>
                 \<lparr>source_impl = PathVariant \<lparr>pfs_path = p', pfs_filesystem = fs'\<rparr>,
                   source_compression = c'\<rparr>
     = (p = p' \<and> fs = fs')"
    by (simp add: FileSource_eq_def FileSource_type_def FileSource_path_def
        FileSource_filesystem_def)
  have buffers: "FileSource_eq \<lparr>source_impl = BufferVariant b, source_compression = c\<rparr>
                   \<lparr>source_impl = BufferVariant b', source_compression = c'\<rparr>
     = (b = b')"
    by (simp add: FileSource_eq_def FileSource_type_def FileSource_buffer_def Buffer_Equals_def)
  have pb: "FileSource_eq \<lparr>source_impl = PathVariant \<lparr>pfs_path = p, pfs_filesystem = fs\<rparr>,
                     source_compression = c\<rparr>
                   \<lparr>source_impl = BufferVariant b', source_compression = c'\<rparr>
     = False"
    by (simp add: FileSource_eq_def FileSource_type_def)
  have bp: "FileSource_eq \<lparr>source_impl = BufferVariant b, source_compression = c\<rparr>
                   \<lparr>source_impl = PathVariant \<lparr>pfs_path = p', pfs_filesystem = fs'\<rparr>,
                     source_compression = c'\<rparr>
     = False"
    by (simp add: FileSource_eq_def FileSource_type_def)
  have general: "FileSource_eq x y
     = (FileSource_type x = FileSource_type y
        \<and> (case (source_impl x, source_impl y) of
              (PathVariant px, PathVariant pz) \<Rightarrow>
                 pfs_path px = pfs_path pz \<and> pfs_filesystem px = pfs_filesystem pz
            | (BufferVariant bx, BufferVariant bz) \<Rightarrow> bx = bz
            | (PathVariant px, BufferVariant bz) \<Rightarrow> False
            | (BufferVariant bx, PathVariant pz) \<Rightarrow> False))"
    by (cases "source_impl x"; cases "source_impl y")
       (simp_all add: FileSource_eq_def FileSource_type_def FileSource_path_def
          FileSource_filesystem_def FileSource_buffer_def Buffer_Equals_def)
  show ?thesis
    by (rule conjI [OF paths conjI [OF buffers conjI [OF pb conjI [OF bp general]]]])
qed

section \<open>Fragments of a file system data source\<close>

lemma collect_fragments_entries:
  "collect_fragments refuted ds options inherited t =
     map (\<lambda>(p, e). MakeFragment ds p e)
       (filter (\<lambda>(p, e). \<not> refuted (scan_filter options) e) (file_entries ds inherited t))"
proof (induction t arbitrary: inherited)
  case (FileNode i file_path)
  then show ?case by (simp add: Let_def)
next
  case (DirectoryNode i dir_path children)
  then show ?case
    by (simp add: map_concat filter_concat comp_def cong: map_cong)
qed

lemma length_file_entries:
  "length (file_entries ds inherited t) = count_files t"
proof (induction t arbitrary: inherited)
  case (FileNode i file_path)
  then show ?case by simp
next
  case (DirectoryNode i dir_path children)
  then show ?case
    by (simp add: length_concat comp_def cong: map_cong)
qed

lemma paths_file_entries:
  "map fst (file_entries ds inherited t) = file_paths t"
proof (induction t arbitrary: inherited)
  case (FileNode i file_path)
  then show ?case by simp
next
  case (DirectoryNode i dir_path children)
  then show ?case
    by (simp add: map_concat comp_def cong: map_cong)
qed

lemma GetFragmentsImpl_entries:
  "GetFragmentsImpl refuted ds options =
     map (\<lambda>(p, e). MakeFragment ds p e)
       (filter (\<lambda>(p, e). \<not> refuted (scan_filter options) e) (forest_entries ds))"
proof -
  have "collect_fragments refuted ds options [ds_partition_expression ds]
      = (\<lambda>t. map (\<lambda>(p, e). MakeFragment ds p e)
           (filter (\<lambda>(p, e). \<not> refuted (scan_filter options) e)
              (file_entries ds [ds_partition_expression ds] t)))"
    by (rule ext) (rule collect_fragments_entries)
  then show ?thesis
    by (simp add: GetFragmentsImpl_def forest_entries_def map_concat filter_concat comp_def)
qed

lemma length_forest_entries:
  "length (forest_entries ds) = sum_list (map count_files (ds_forest ds))"
proof -
  have "(\<lambda>t. length (file_entries ds [ds_partition_expression ds] t)) = count_files"
    by (rule ext) (rule length_file_entries)
  then show ?thesis
    by (simp add: forest_entries_def length_concat comp_def)
qed

lemma paths_forest_entries:
  "map fst (forest_entries ds) = concat (map file_paths (ds_forest ds))"
proof -
  have "(\<lambda>t. map fst (file_entries ds [ds_partition_expression ds] t)) = file_paths"
    by (rule ext) (rule paths_file_entries)
  then show ?thesis
    by (simp add: forest_entries_def map_concat comp_def)
qed

text \<open>
  Claim C9. For every file system data source and every scan request, the number of
  fragments that \<open>GetFragmentsImpl\<close> emits is at most the number of file nodes of the
  forest, and equals it when the scan predicate refutes no accumulated predicate, so that
  nothing is pruned. Every fragment emitted is the fragment of a file node: the
  fragments are those of the files whose accumulated predicate is not refuted, in the
  order of the visit, and a directory is never emitted.
\<close>

theorem GetFragmentsImpl_emits_files_only:
  "length (GetFragmentsImpl refuted ds options) \<le> sum_list (map count_files (ds_forest ds))
   \<and> ((\<forall>e. \<not> refuted (scan_filter options) e) \<longrightarrow>
        length (GetFragmentsImpl refuted ds options) = sum_list (map count_files (ds_forest ds)))
   \<and> GetFragmentsImpl refuted ds options =
        map (\<lambda>(p, e). MakeFragment ds p e)
          (filter (\<lambda>(p, e). \<not> refuted (scan_filter options) e) (forest_entries ds))
   \<and> length (forest_entries ds) = sum_list (map count_files (ds_forest ds))
   \<and> map fst (forest_entries ds) = concat (map file_paths (ds_forest ds))
   \<and> (\<forall>fragment \<in> set (GetFragmentsImpl refuted ds options).
         FileSource_type (fragment_source fragment) = PATH
         \<and> FileSource_path (fragment_source fragment)
             \<in> set (concat (map file_paths (ds_forest ds))))
   \<and> ((\<forall>t \<in> set (ds_forest ds). count_files t = 0) \<longrightarrow>
        GetFragmentsImpl refuted ds options = [])"
proof -
  let ?keep = "\<lambda>(p, e). \<not> refuted (scan_filter options) e"
  have shape: "GetFragmentsImpl refuted ds options =
        map (\<lambda>(p, e). MakeFragment ds p e) (filter ?keep (forest_entries ds))"
    by (rule GetFragmentsImpl_entries)
  have len: "length (forest_entries ds) = sum_list (map count_files (ds_forest ds))"
    by (rule length_forest_entries)
  have paths: "map fst (forest_entries ds) = concat (map file_paths (ds_forest ds))"
    by (rule paths_forest_entries)
  have "length (GetFragmentsImpl refuted ds options) \<le> length (forest_entries ds)"
    by (simp add: shape)
  then have le: "length (GetFragmentsImpl refuted ds options)
      \<le> sum_list (map count_files (ds_forest ds))"
    by (simp only: len)
  have eq: "(\<forall>e. \<not> refuted (scan_filter options) e) \<longrightarrow>
        length (GetFragmentsImpl refuted ds options) = sum_list (map count_files (ds_forest ds))"
  proof
    assume "\<forall>e. \<not> refuted (scan_filter options) e"
    then have "filter ?keep (forest_entries ds) = forest_entries ds"
      by (simp add: filter_id_conv split_beta)
    then show "length (GetFragmentsImpl refuted ds options)
        = sum_list (map count_files (ds_forest ds))"
      by (simp add: shape len)
  qed
  have files: "\<forall>fragment \<in> set (GetFragmentsImpl refuted ds options).
         FileSource_type (fragment_source fragment) = PATH
         \<and> FileSource_path (fragment_source fragment)
             \<in> set (concat (map file_paths (ds_forest ds)))"
  proof
    fix fragment assume "fragment \<in> set (GetFragmentsImpl refuted ds options)"
    then obtain p e where pe: "(p, e) \<in> set (forest_entries ds)"
      and fr: "fragment = MakeFragment ds p e"
      by (auto simp add: shape)
    from pe have "p \<in> set (map fst (forest_entries ds))"
      by force
    then have "p \<in> set (concat (map file_paths (ds_forest ds)))"
      by (simp only: paths)
    then show "FileSource_type (fragment_source fragment) = PATH
         \<and> FileSource_path (fragment_source fragment)
             \<in> set (concat (map file_paths (ds_forest ds)))"
      by (simp add: fr MakeFragment_def FileSource_type_def FileSource_path_def)
  qed
  have none: "(\<forall>t \<in> set (ds_forest ds). count_files t = 0) \<longrightarrow>
        GetFragmentsImpl refuted ds options = []"
  proof
    assume "\<forall>t \<in> set (ds_forest ds). count_files t = 0"
    then have z: "sum_list (map count_files (ds_forest ds)) = 0"
      by simp
    have "length (GetFragmentsImpl refuted ds options) \<le> 0"
      using le by (simp only: z)
    then show "GetFragmentsImpl refuted ds options = []"
      by simp
  qed
  show ?thesis
    by (rule conjI [OF le conjI [OF eq conjI [OF shape conjI [OF len conjI [OF paths
          conjI [OF files none]]]]]])
qed

theorem GetFragmentsImpl_emits_files_only_witness:
  "(\<forall>e. \<not> refuted_when_false (scan_filter \<lparr>scan_filter = scalar_bool True\<rparr>) e)
   \<and> length (GetFragmentsImpl refuted_when_false
        \<lparr>ds_filesystem = 1,
         ds_forest = [DirectoryNode 0 ''d'' [FileNode 1 ''d/a'', DirectoryNode 2 ''d/e'' [],
                        FileNode 3 ''d/b''], FileNode 4 ''c''],
         ds_partitions = [], ds_partition_expression = scalar_bool True, ds_format = ''parquet''\<rparr>
        \<lparr>scan_filter = scalar_bool True\<rparr>) = 3
   \<and> list_all (\<lambda>t. count_files t = 0) [DirectoryNode 0 ''d'' [DirectoryNode 1 ''d/e'' []]]
   \<and> GetFragmentsImpl refuted_when_false
        \<lparr>ds_filesystem = 1, ds_forest = [DirectoryNode 0 ''d'' [DirectoryNode 1 ''d/e'' []]],
         ds_partitions = [], ds_partition_expression = scalar_bool True, ds_format = ''parquet''\<rparr>
        \<lparr>scan_filter = scalar_bool True\<rparr> = []"
proof -
  let ?ds = "\<lparr>ds_filesystem = 1,
         ds_forest = [DirectoryNode 0 ''d'' [FileNode 1 ''d/a'', DirectoryNode 2 ''d/e'' [],
                        FileNode 3 ''d/b''], FileNode 4 ''c''],
         ds_partitions = [], ds_partition_expression = scalar_bool True, ds_format = ''parquet''\<rparr>"
  let ?dirs = "\<lparr>ds_filesystem = 1, ds_forest = [DirectoryNode 0 ''d'' [DirectoryNode 1 ''d/e'' []]],
         ds_partitions = [], ds_partition_expression = scalar_bool True, ds_format = ''parquet''\<rparr>"
  let ?options = "\<lparr>scan_filter = scalar_bool True\<rparr>"
  have h1: "\<forall>e. \<not> refuted_when_false (scan_filter ?options) e"
    by (simp add: refuted_when_false_def scalar_bool_def)
  have files: "sum_list (map count_files (ds_forest ?ds)) = 3"
    by simp
  have "(\<forall>e. \<not> refuted_when_false (scan_filter ?options) e) \<longrightarrow>
      length (GetFragmentsImpl refuted_when_false ?ds ?options)
        = sum_list (map count_files (ds_forest ?ds))"
    using GetFragmentsImpl_emits_files_only [of refuted_when_false ?ds ?options]
    by (rule conjunct2 [THEN conjunct1])
  from this h1 have "length (GetFragmentsImpl refuted_when_false ?ds ?options)
        = sum_list (map count_files (ds_forest ?ds))"
    by (rule mp)
  then have c1: "length (GetFragmentsImpl refuted_when_false ?ds ?options) = 3"
    by (simp only: files)
  have h2: "\<forall>t \<in> set [DirectoryNode 0 ''d'' [DirectoryNode 1 ''d/e'' []]]. count_files t = 0"
    by simp
  have "(\<forall>t \<in> set (ds_forest ?dirs). count_files t = 0) \<longrightarrow>
      GetFragmentsImpl refuted_when_false ?dirs ?options = []"
    using GetFragmentsImpl_emits_files_only [of refuted_when_false ?dirs ?options]
    by (rule conjunct2 [THEN conjunct2, THEN conjunct2, THEN conjunct2, THEN conjunct2,
          THEN conjunct2])
  then have c2: "GetFragmentsImpl refuted_when_false ?dirs ?options = []"
    using h2 by simp
  have h2': "list_all (\<lambda>t. count_files t = 0) [DirectoryNode 0 ''d'' [DirectoryNode 1 ''d/e'' []]]"
    by simp
  show ?thesis
    by (rule conjI [OF h1 conjI [OF c1 conjI [OF h2' c2]]])
qed

end
